theory Spec2Isabelle
  imports Main
begin

section \<open>The job table of tsh.c\<close>

text \<open>
  Manifest constants of the source: \<open>MAXLINE\<close>, \<open>MAXARGS\<close>, \<open>MAXJOBS\<close> and the four job
  states \<open>UNDEF\<close>, \<open>FG\<close>, \<open>BG\<close>, \<open>ST\<close>, which the source keeps as plain integers.
\<close>

definition MAXLINE :: nat where "MAXLINE = 1024"
definition MAXARGS :: nat where "MAXARGS = 128"
definition MAXJOBS :: nat where "MAXJOBS = 16"

definition UNDEF :: int where "UNDEF = 0"
definition FG :: int where "FG = 1"
definition BG :: int where "BG = 2"
definition ST :: int where "ST = 3"

text \<open>
  \<open>struct job_t\<close>. The fields \<open>pid\<close>, \<open>jid\<close> and \<open>state\<close> are C \<open>int\<close>s; the only
  arithmetic done on them is the negation of a pid that is not 0, which cannot overflow
  for a positive pid (one that \<open>fork\<close> returned, or one that \<open>do_bgfg\<close> read with
  \<open>atoi\<close> and found positive), so they are modelled as \<open>int\<close>. \<open>cmdline\<close> is the
  NUL-terminated text held in \<open>char cmdline[MAXLINE]\<close>.
\<close>

record job_t =
  pid :: int
  jid :: int
  state :: int
  cmdline :: string

text \<open>
  The signals the shell names, and \<open>sigprocmask\<close>'s three operations. A \<open>sigset_t\<close> is a
  set of signals; \<open>sigfillset\<close> yields \<open>UNIV\<close>.
\<close>

datatype signal = SIGINT | SIGTSTP | SIGCHLD | SIGCONT | SIGQUIT | SIGUSR1 | SIGOTHER nat

datatype sigcall = SIG_BLOCK "signal set" | SIG_UNBLOCK "signal set" | SIG_SETMASK "signal set"

text \<open>
  The global state of the shell process: the array \<open>jobs[MAXJOBS]\<close> as a list of slots
  (a \<open>struct job_t *\<close> into it is an index), the flag \<open>verbose\<close>, and the observable
  effects in the order they happen: \<open>out\<close> holds the text of every \<open>printf\<close> call,
  \<open>kills\<close> every \<open>kill(target, sig)\<close> call, \<open>sigcalls\<close> every \<open>sigprocmask\<close> call;
  \<open>blocked\<close> is the signal mask of the process.
\<close>

record shell =
  jobs :: "job_t list"
  verbose :: int
  out :: "string list"
  kills :: "(int \<times> signal) list"
  blocked :: "signal set"
  sigcalls :: "sigcall list"

definition printf :: "string \<Rightarrow> shell \<Rightarrow> shell" where
  "printf s st = st\<lparr>out := out st @ [s]\<rparr>"

definition kill :: "int \<Rightarrow> signal \<Rightarrow> shell \<Rightarrow> shell" where
  "kill target sg st = st\<lparr>kills := kills st @ [(target, sg)]\<rparr>"

text \<open>\<open>sigprocmask(how, set, oldset)\<close>: returns the previous mask beside the new state.\<close>

fun sigprocmask :: "sigcall \<Rightarrow> shell \<Rightarrow> signal set \<times> shell" where
  "sigprocmask (SIG_BLOCK m) st =
     (blocked st, st\<lparr>blocked := blocked st \<union> m, sigcalls := sigcalls st @ [SIG_BLOCK m]\<rparr>)"
| "sigprocmask (SIG_UNBLOCK m) st =
     (blocked st, st\<lparr>blocked := blocked st - m, sigcalls := sigcalls st @ [SIG_UNBLOCK m]\<rparr>)"
| "sigprocmask (SIG_SETMASK m) st =
     (blocked st, st\<lparr>blocked := m, sigcalls := sigcalls st @ [SIG_SETMASK m]\<rparr>)"

subsection \<open>Formatting\<close>

text \<open>\<open>%d\<close> of \<open>printf\<close>: the decimal numeral of an integer.\<close>

fun dec :: "nat \<Rightarrow> string" where
  "dec n = (if n < 10 then [''0123456789'' ! n]
            else dec (n div 10) @ [''0123456789'' ! (n mod 10)])"

declare dec.simps [simp del]

definition fmt_d :: "int \<Rightarrow> string" where
  "fmt_d i = (if i < 0 then CHR ''-'' # dec (nat (- i)) else dec (nat i))"

subsection \<open>Helper routines that manipulate the job list\<close>

text \<open>
  Every lookup of the source is the same loop, \<open>for (i = 0; i < MAXJOBS; i++)\<close> leaving
  at the first slot that passes a test; \<open>first_index\<close> is that loop over the slots in
  order, yielding the index \<open>i\<close> it stops at.
\<close>

fun first_index :: "('a \<Rightarrow> bool) \<Rightarrow> 'a list \<Rightarrow> nat option" where
  "first_index P [] = None"
| "first_index P (x # xs) = (if P x then Some 0 else map_option Suc (first_index P xs))"

definition clearjob :: "job_t \<Rightarrow> job_t" where
  "clearjob job = job\<lparr>pid := 0, jid := 0, state := UNDEF, cmdline := []\<rparr>"

definition initjobs :: "job_t list \<Rightarrow> job_t list" where
  "initjobs js = map clearjob js"

text \<open>
  \<open>freejid\<close>: the first loop marks \<open>taken[jobs[i].jid]\<close> in an array of \<open>MAXJOBS + 1\<close>
  flags; a job id outside \<open>0..MAXJOBS\<close> would index outside that array, which C leaves
  undefined: \<open>None\<close>. The second loop returns the first \<open>i\<close> in \<open>1..MAXJOBS\<close> not marked,
  or 0.
\<close>

fun mark_taken :: "job_t list \<Rightarrow> bool list \<Rightarrow> bool list option" where
  "mark_taken [] taken = Some taken"
| "mark_taken (j # js) taken =
     (if jid j \<noteq> 0 then
        (if 0 \<le> jid j \<and> nat (jid j) < length taken
         then mark_taken js (taken[nat (jid j) := True]) else None)
      else mark_taken js taken)"

definition first_untaken :: "bool list \<Rightarrow> int" where
  "first_untaken taken =
     (case find (\<lambda>i. \<not> taken ! i) [1..<Suc MAXJOBS] of Some i \<Rightarrow> int i | None \<Rightarrow> 0)"

definition freejid :: "job_t list \<Rightarrow> int option" where
  "freejid js = map_option first_untaken (mark_taken js (replicate (MAXJOBS + 1) False))"

text \<open>
  \<open>addjob\<close> returns 0 or 1. \<open>strcpy\<close> into \<open>cmdline[MAXLINE]\<close> is defined only for a text
  of fewer than \<open>MAXLINE\<close> characters (\<open>None\<close> otherwise; \<open>main\<close> reads lines with
  \<open>fgets(cmdline, MAXLINE, stdin)\<close>, which are shorter).
\<close>

definition addjob :: "int \<Rightarrow> int \<Rightarrow> string \<Rightarrow> shell \<Rightarrow> (int \<times> shell) option" where
  "addjob p s c st =
     (if p < 1 then Some (0, st)
      else case freejid (jobs st) of
        None \<Rightarrow> None
      | Some free \<Rightarrow>
          if free = 0 then Some (0, printf ''Tried to create too many jobs\<newline>'' st)
          else (case first_index (\<lambda>j. pid j = 0) (jobs st) of
            None \<Rightarrow> Some (0, st)
          | Some i \<Rightarrow>
              if MAXLINE \<le> length c then None
              else
                let job = (jobs st ! i)\<lparr>pid := p, state := s, jid := free, cmdline := c\<rparr>;
                    st1 = st\<lparr>jobs := (jobs st)[i := job]\<rparr>
                in Some (1,
                     if verbose st \<noteq> 0
                     then printf (''Added job ['' @ fmt_d (jid job) @ ''] '' @ fmt_d (pid job)
                                  @ '' '' @ cmdline job @ ''\<newline>'') st1
                     else st1)))"

definition deletejob :: "job_t list \<Rightarrow> int \<Rightarrow> int \<times> job_t list" where
  "deletejob js p =
     (if p < 1 then (0, js)
      else case first_index (\<lambda>j. pid j = p) js of
        Some i \<Rightarrow> (1, js[i := clearjob (js ! i)])
      | None \<Rightarrow> (0, js))"

definition fgpid :: "job_t list \<Rightarrow> int" where
  "fgpid js = (case first_index (\<lambda>j. state j = FG) js of Some i \<Rightarrow> pid (js ! i) | None \<Rightarrow> 0)"

text \<open>\<open>getjobpid\<close> and \<open>getjobjid\<close> return a pointer to the slot (its index) or \<open>NULL\<close>.\<close>

definition getjobpid :: "job_t list \<Rightarrow> int \<Rightarrow> nat option" where
  "getjobpid js p = (if p < 1 then None else first_index (\<lambda>j. pid j = p) js)"

definition getjobjid :: "job_t list \<Rightarrow> int \<Rightarrow> nat option" where
  "getjobjid js k = (if k < 1 then None else first_index (\<lambda>j. jid j = k) js)"

definition pid2jid :: "job_t list \<Rightarrow> int \<Rightarrow> int" where
  "pid2jid js p =
     (if p < 1 then 0
      else case first_index (\<lambda>j. pid j = p) js of Some i \<Rightarrow> jid (js ! i) | None \<Rightarrow> 0)"

definition set_state :: "nat \<Rightarrow> int \<Rightarrow> shell \<Rightarrow> shell" where
  \<comment> \<open>\<open>job->state = v\<close> through the pointer \<open>&jobs[i]\<close>\<close>
  "set_state i v st = st\<lparr>jobs := (jobs st)[i := (jobs st ! i)\<lparr>state := v\<rparr>]\<rparr>"

definition delete_in :: "int \<Rightarrow> shell \<Rightarrow> shell" where
  \<comment> \<open>the statement \<open>deletejob(jobs, pid);\<close> on the global table, its result dropped\<close>
  "delete_in p st = st\<lparr>jobs := snd (deletejob (jobs st) p)\<rparr>"

fun listjobs_from :: "nat \<Rightarrow> job_t list \<Rightarrow> shell \<Rightarrow> shell" where
  "listjobs_from i [] st = st"
| "listjobs_from i (j # js) st =
     listjobs_from (Suc i) js
       (if pid j \<noteq> 0 then
          printf (cmdline j)
            ((if state j = BG then printf ''Running ''
              else if state j = FG then printf ''Foreground ''
              else if state j = ST then printf ''Stopped ''
              else printf (''listjobs: Internal error: job['' @ fmt_d (int i) @ ''].state=''
                           @ fmt_d (state j) @ '' ''))
               (printf (''['' @ fmt_d (jid j) @ ''] ('' @ fmt_d (pid j) @ '') '') st))
        else st)"

definition listjobs :: "job_t list \<Rightarrow> shell \<Rightarrow> shell" where
  "listjobs js st = listjobs_from 0 js st"

section \<open>The environment\<close>

text \<open>
  What \<open>waitpid\<close> stores in \<open>status\<close>, as the macros \<open>WIFEXITED\<close>/\<open>WEXITSTATUS\<close>,
  \<open>WIFSIGNALED\<close>/\<open>WTERMSIG\<close>, \<open>WIFSTOPPED\<close>/\<open>WSTOPSIG\<close> and \<open>WIFCONTINUED\<close> read it.
\<close>

datatype wstatus = Exited int | Signaled int | Stopped int | Continued

text \<open>
  The answers of the kernel and the C library during one call of a shell routine:
  what \<open>fork\<close> and \<open>kill\<close> return, the successive results \<open>(return value, status)\<close>
  of \<open>waitpid\<close>, and the text \<open>strerror(errno)\<close> has after a failed call.
\<close>

record sys =
  fork_ret :: int
  kill_ret :: int
  waitpid_rets :: "(int \<times> wstatus) list"
  strerror_errno :: string

text \<open>
  How a routine of the shell ends: it returns (with a value and the new state), the
  process leaves through \<open>exit(n)\<close>, it is still blocked in \<open>waitpid(pid, ...)\<close> of
  \<open>waitfg\<close> when the recorded answers run out, control is in the forked child (which
  unblocks the signals, calls \<open>setpgid\<close> and \<open>execvp\<close>, and never comes back to the
  shell's loop), or C leaves the behaviour undefined.
\<close>

datatype 'a outcome =
  Return 'a shell | Exit int shell | Blocked int shell | Child shell | Undefined

fun bind :: "'a outcome \<Rightarrow> ('a \<Rightarrow> shell \<Rightarrow> 'b outcome) \<Rightarrow> 'b outcome" where
  "bind (Return x st) f = f x st"
| "bind (Exit n st) f = Exit n st"
| "bind (Blocked p st) f = Blocked p st"
| "bind (Child st) f = Child st"
| "bind Undefined f = Undefined"

definition unix_error :: "string \<Rightarrow> sys \<Rightarrow> shell \<Rightarrow> 'a outcome" where
  "unix_error msg sy st = Exit 1 (printf (msg @ '': '' @ strerror_errno sy @ ''\<newline>'') st)"

section \<open>The foreground waiter\<close>

fun waitfg_loop :: "int \<Rightarrow> sys \<Rightarrow> (int \<times> wstatus) list \<Rightarrow> shell \<Rightarrow> unit outcome" where
  "waitfg_loop p sy [] st = Blocked p st"
| "waitfg_loop p sy ((wpid, status) # rest) st =
     (if wpid < 0 then unix_error ''waitfg: waitpid error'' sy st
      else case getjobpid (jobs st) p of
        None \<Rightarrow> Return () (printf (''waitfg: No job found for PID '' @ fmt_d p @ ''\<newline>'') st)
      | Some i \<Rightarrow>
          (case status of
             Stopped sg \<Rightarrow>
               (let st1 = set_state i ST st
                in Return () (printf (''Job ['' @ fmt_d (jid (jobs st1 ! i)) @ ''] ('' @ fmt_d p
                                      @ '') stopped by signal '' @ fmt_d sg @ ''\<newline>'') st1))
           | Signaled sg \<Rightarrow>
               (let st1 = printf (''Job ['' @ fmt_d (jid (jobs st ! i)) @ ''] ('' @ fmt_d p
                                  @ '') terminated by signal '' @ fmt_d sg @ ''\<newline>'') st
                in Return () (delete_in p st1))
           | Exited code \<Rightarrow> Return () (delete_in p st)
           | Continued \<Rightarrow> waitfg_loop p sy rest st))"

definition waitfg :: "int \<Rightarrow> sys \<Rightarrow> shell \<Rightarrow> unit outcome" where
  "waitfg p sy st =
     (if p < 1 then Return () (printf ''waitfg: Invalid PID\<newline>'' st)
      else waitfg_loop p sy (waitpid_rets sy) st)"

section \<open>The signal handlers\<close>

text \<open>
  One pass of the loop of \<open>sigchld_handler\<close> for a reaped \<open>pid > 0\<close>. \<open>job\<close> stays the
  pointer \<open>getjobpid\<close> returned, so \<open>job->jid\<close> is read from the table as it is at the
  time of the \<open>printf\<close>.
\<close>

definition sigchld_reap :: "int \<Rightarrow> wstatus \<Rightarrow> shell \<Rightarrow> shell" where
  "sigchld_reap p status st =
     (case getjobpid (jobs st) p of
        None \<Rightarrow> printf (''sigchld_handler: No job found for PID '' @ fmt_d p @ ''\<newline>'') st
      | Some i \<Rightarrow>
          (case status of
             Exited code \<Rightarrow>
               (let st1 = delete_in p st
                in printf (''Job ['' @ fmt_d (jid (jobs st1 ! i)) @ ''] ('' @ fmt_d p
                           @ '') exited with status '' @ fmt_d code @ ''\<newline>'') st1)
           | Signaled sg \<Rightarrow>
               (let st1 = printf (''Job ['' @ fmt_d (jid (jobs st ! i)) @ ''] ('' @ fmt_d p
                                  @ '') terminated by signal '' @ fmt_d sg @ ''\<newline>'') st
                in delete_in p st1)
           | Stopped sg \<Rightarrow>
               (let st1 = set_state i ST st
                in printf (''Job ['' @ fmt_d (jid (jobs st1 ! i)) @ ''] ('' @ fmt_d p
                           @ '') stopped by signal '' @ fmt_d sg @ ''\<newline>'') st1)
           | Continued \<Rightarrow>
               (let st1 = set_state i BG st
                in printf (''Job ['' @ fmt_d (jid (jobs st1 ! i)) @ ''] ('' @ fmt_d p
                           @ '') continued'' @ ''\<newline>'') st1)))"

text \<open>
  The loop \<open>while ((pid = waitpid(-1, &status, WNOHANG | WUNTRACED | WCONTINUED)) > 0)\<close>
  over the successive answers of \<open>waitpid\<close>; the end of the list stands for the answer
  \<open>\<le> 0\<close> that \<open>WNOHANG\<close> gives once no child has a change to report.
\<close>

fun sigchld_loop :: "(int \<times> wstatus) list \<Rightarrow> shell \<Rightarrow> shell" where
  "sigchld_loop [] st = st"
| "sigchld_loop ((p, status) # rest) st =
     (if p > 0 then sigchld_loop rest (sigchld_reap p status st) else st)"

definition sigchld_handler :: "(int \<times> wstatus) list \<Rightarrow> shell \<Rightarrow> shell" where
  "sigchld_handler reaped st =
     (let (prev_all, st1) = sigprocmask (SIG_BLOCK UNIV) st;
          st2 = sigchld_loop reaped st1
      in snd (sigprocmask (SIG_SETMASK prev_all) st2))"

definition sigint_handler :: "shell \<Rightarrow> shell" where
  "sigint_handler st =
     (let fg_pid = fgpid (jobs st)
      in if fg_pid \<noteq> 0 then kill (- fg_pid) SIGINT st else st)"

definition sigtstp_handler :: "shell \<Rightarrow> shell" where
  "sigtstp_handler st =
     (let fg_pid = fgpid (jobs st)
      in if fg_pid \<noteq> 0 then
           (let st1 = kill (- fg_pid) SIGTSTP st
            in case getjobpid (jobs st1) fg_pid of
                 Some i \<Rightarrow> set_state i ST st1
               | None \<Rightarrow> st1)
         else st)"

section \<open>The bg and fg commands\<close>

text \<open>
  \<open>atoi\<close> as the C library the shell is linked with has it (glibc, where \<open>long\<close> has
  64 bits and \<open>int\<close> 32): \<open>atoi(s)\<close> is \<open>(int) strtol(s, NULL, 10)\<close>. \<open>strtol\<close> skips
  leading white space, takes an optional sign and then the decimal digits up to the first
  other character (no digits give 0), and answers \<open>LONG_MAX\<close> or \<open>LONG_MIN\<close> for a
  value outside \<open>long\<close>. The conversion to \<open>int\<close> keeps the low 32 bits, read in
  two's complement: \<open>atoi("4294967301")\<close> is 5.
\<close>

definition isspace :: "char \<Rightarrow> bool" where
  "isspace c = (c \<in> set [CHR '' '', CHR 0x09, CHR 0x0A, CHR 0x0B, CHR 0x0C, CHR 0x0D])"

definition isdigit :: "char \<Rightarrow> bool" where
  "isdigit c = (c \<in> set ''0123456789'')"

fun digits_val :: "int \<Rightarrow> string \<Rightarrow> int" where
  "digits_val acc [] = acc"
| "digits_val acc (c # cs) =
     (if isdigit c then digits_val (10 * acc + (of_char c - 48)) cs else acc)"

definition LONG_MAX :: int where "LONG_MAX = 9223372036854775807"
definition LONG_MIN :: int where "LONG_MIN = - 9223372036854775808"

definition strtol :: "string \<Rightarrow> int" where
  \<comment> \<open>\<open>strtol(s, NULL, 10)\<close>\<close>
  "strtol s =
     (let t = dropWhile isspace s;
          neg = (t \<noteq> [] \<and> hd t = CHR ''-'');
          u = (if t \<noteq> [] \<and> (hd t = CHR ''-'' \<or> hd t = CHR ''+'') then tl t else t);
          n = digits_val 0 u;
          v = (if neg then - n else n)
      in if v < LONG_MIN then LONG_MIN else if LONG_MAX < v then LONG_MAX else v)"

definition to_int :: "int \<Rightarrow> int" where
  \<comment> \<open>the conversion \<open>(int) v\<close> of a \<open>long\<close>\<close>
  "to_int v = (v + 2147483648) mod 4294967296 - 2147483648"

definition atoi :: "string \<Rightarrow> int" where
  "atoi s = to_int (strtol s)"

text \<open>
  \<open>do_bgfg\<close> in the three steps of its body. \<open>argv\<close> is the vector up to its \<open>NULL\<close>
  entry, so \<open>argv[1] == NULL\<close> is a vector of one entry; \<open>builtin_cmd\<close> never passes an
  empty one. The first step validates the argument and finds the job: it ends with the
  text of a rejection or with the pointer \<open>job\<close> (an index) and \<open>pid\<close>; only the
  empty vector, whose \<open>argv[1]\<close> is not there to read, is undefined.
\<close>

datatype resolved = Rejected string | Job nat int | Unspecified

definition do_bgfg_resolve :: "string list \<Rightarrow> job_t list \<Rightarrow> resolved" where
  "do_bgfg_resolve argv js =
     (case argv of
        [] \<Rightarrow> Unspecified
      | [cmd] \<Rightarrow> Rejected (cmd @ '' command requires PID or %jobid argument\<newline>'')
      | cmd # arg # _ \<Rightarrow>
          if arg \<noteq> [] \<and> hd arg = CHR ''%'' then
            (let j = atoi (tl arg)
             in if j \<le> 0 then Rejected (cmd @ '': argument must be a positive integer\<newline>'')
                else (case getjobjid js j of
                        None \<Rightarrow> Rejected (arg @ '': No such job\<newline>'')
                      | Some i \<Rightarrow> Job i (pid (js ! i))))
          else
            (let p = atoi arg
             in if p \<le> 0 then Rejected (cmd @ '': argument must be a PID or %jobid\<newline>'')
                else (case getjobpid js p of
                        None \<Rightarrow> Rejected (''('' @ fmt_d p @ ''): No such process\<newline>'')
                      | Some i \<Rightarrow> Job i p)))"

text \<open>The second step: \<open>if (kill(-pid, SIGCONT) < 0) unix_error("kill error");\<close>\<close>

definition do_bgfg_signal :: "int \<Rightarrow> sys \<Rightarrow> shell \<Rightarrow> unit outcome" where
  "do_bgfg_signal p sy st =
     (let st1 = kill (- p) SIGCONT st
      in if kill_ret sy < 0 then unix_error ''kill error'' sy st1 else Return () st1)"

text \<open>The third step: the state change through \<open>job\<close>, the notice or the wait.\<close>

definition do_bgfg_retag :: "string list \<Rightarrow> nat \<Rightarrow> sys \<Rightarrow> shell \<Rightarrow> unit outcome" where
  "do_bgfg_retag argv i sy st =
     (if hd argv = ''bg'' then
        (let st1 = set_state i BG st; job = jobs st1 ! i
         in Return () (printf (''['' @ fmt_d (jid job) @ ''] ('' @ fmt_d (pid job) @ '') ''
                               @ cmdline job) st1))
      else if hd argv = ''fg'' then
        (let st1 = set_state i FG st
         in waitfg (pid (jobs st1 ! i)) sy st1)
      else Return () st)"

definition do_bgfg :: "string list \<Rightarrow> sys \<Rightarrow> shell \<Rightarrow> unit outcome" where
  "do_bgfg argv sy st =
     (case do_bgfg_resolve argv (jobs st) of
        Unspecified \<Rightarrow> Undefined
      | Rejected msg \<Rightarrow> Return () (printf msg st)
      | Job i p \<Rightarrow> bind (do_bgfg_signal p sy st) (\<lambda>_. do_bgfg_retag argv i sy))"

text \<open>
  \<open>do_bgfg\<close> runs with no signal blocked (\<open>eval\<close> blocks \<open>SIGCHLD\<close>, \<open>SIGINT\<close> and
  \<open>SIGTSTP\<close> only after \<open>builtin_cmd\<close> has returned 0), so a handler can run between
  any two of its statements. \<open>do_bgfg_interleaved\<close> is \<open>do_bgfg\<close> with one handler run
  \<open>h\<close> delivered after \<open>kill\<close> has returned and before the state change through \<open>job\<close>.
\<close>

definition do_bgfg_interleaved ::
    "string list \<Rightarrow> sys \<Rightarrow> (shell \<Rightarrow> shell) \<Rightarrow> shell \<Rightarrow> unit outcome" where
  "do_bgfg_interleaved argv sy h st =
     (case do_bgfg_resolve argv (jobs st) of
        Unspecified \<Rightarrow> Undefined
      | Rejected msg \<Rightarrow> Return () (printf msg st)
      | Job i p \<Rightarrow> bind (do_bgfg_signal p sy st) (\<lambda>_ st1. do_bgfg_retag argv i sy (h st1)))"

section \<open>Evaluating a command line\<close>

text \<open>
  \<open>parseline\<close>: \<open>split_at d s\<close> is \<open>strchr(s, d)\<close> together with \<open>*delim = '\0'\<close> and
  \<open>buf = delim + 1\<close>: the text before the first \<open>d\<close> and the text after it.
\<close>

definition split_at :: "char \<Rightarrow> string \<Rightarrow> (string \<times> string) option" where
  "split_at d s =
     (if d \<in> set s then Some (takeWhile (\<lambda>x. x \<noteq> d) s, tl (dropWhile (\<lambda>x. x \<noteq> d) s))
      else None)"

function build_argv :: "string \<Rightarrow> string list" where
  "build_argv buf =
     (let b = dropWhile (\<lambda>c. c = CHR '' '') buf
      in case (if b \<noteq> [] \<and> hd b = CHR 0x27 then split_at (CHR 0x27) (tl b)
               else split_at (CHR '' '') b) of
           None \<Rightarrow> []
         | Some (arg, rest) \<Rightarrow> arg # build_argv rest)"
  by pat_completeness auto
termination
proof (relation "measure length")
  show "wf (measure length)" by simp
next
  fix buf :: string and b x2 arg rest
  assume b: "b = dropWhile (\<lambda>c. c = CHR '' '') buf"
    and s: "(if b \<noteq> [] \<and> hd b = CHR 0x27 then split_at (CHR 0x27) (tl b)
             else split_at (CHR '' '') b) = Some x2"
    and x: "(arg, rest) = x2"
  have shorter: "length r < length t" if h: "split_at d t = Some (a, r)" for d t a r
  proof -
    from h have m: "d \<in> set t" and r: "r = tl (dropWhile (\<lambda>x. x \<noteq> d) t)"
      by (auto simp: split_at_def split: if_splits)
    from m have "dropWhile (\<lambda>x. x \<noteq> d) t \<noteq> []" by (simp add: dropWhile_eq_Nil_conv)
    then have "length r < length (dropWhile (\<lambda>x. x \<noteq> d) t)"
      using r by (cases "dropWhile (\<lambda>x. x \<noteq> d) t") auto
    also have "\<dots> \<le> length t" by (rule length_dropWhile_le)
    finally show ?thesis .
  qed
  have lb: "length b \<le> length buf" unfolding b by (rule length_dropWhile_le)
  have "length rest < length b" using s x
    by (auto split: if_splits dest!: shorter[of _ _ arg rest] simp: less_Suc_eq_le
        intro: less_le_trans)
  with lb show "(rest, buf) \<in> measure length" by simp
qed

declare build_argv.simps [simp del]

text \<open>
  \<open>parseline\<close> returns \<open>argc\<close> and fills \<open>argv\<close>. It is undefined on the empty string
  (\<open>buf[strlen(buf)-1]\<close>), on a text that does not fit \<open>array[MAXLINE]\<close>, and when more
  than \<open>MAXARGS - 1\<close> arguments are stored in the caller's \<open>argv[MAXARGS]\<close>.
\<close>

definition parseline :: "string \<Rightarrow> (int \<times> string list) option" where
  "parseline cmdl =
     (if cmdl = [] \<or> MAXLINE \<le> length cmdl then None
      else let argv = build_argv (butlast cmdl @ '' '')
           in if MAXARGS \<le> length argv then None else Some (int (length argv), argv))"

definition builtin_cmd :: "string list \<Rightarrow> sys \<Rightarrow> shell \<Rightarrow> int outcome" where
  "builtin_cmd argv sy st =
     (if hd argv = ''quit'' then Exit 0 st
      else if hd argv = ''jobs'' then Return 1 (listjobs (jobs st) st)
      else if hd argv = ''bg'' \<or> hd argv = ''fg'' then
        bind (do_bgfg argv sy st) (\<lambda>_. Return 1)
      else Return 0 st)"

text \<open>
  \<open>eval\<close>, followed in the shell process: \<open>fork_ret\<close> is what \<open>fork\<close> returns, 0 meaning
  that control is in the child. The flag \<open>bg\<close> is the value \<open>parseline\<close> returns.
\<close>

definition eval :: "string \<Rightarrow> sys \<Rightarrow> shell \<Rightarrow> unit outcome" where
  "eval cmdl sy st =
     (case parseline cmdl of
        None \<Rightarrow> Undefined
      | Some (bg, argv) \<Rightarrow>
          if argv = [] then Return () st
          else bind (builtin_cmd argv sy st) (\<lambda>b st.
            if b = 0 then
              (let mask = {SIGCHLD, SIGINT, SIGTSTP};
                   st1 = snd (sigprocmask (SIG_BLOCK mask) st);
                   p = fork_ret sy
               in if p = 0 then Child st1
                  else
                    bind (case addjob p (if bg \<noteq> 0 then BG else FG) cmdl st1 of
                            None \<Rightarrow> Undefined
                          | Some (r, st2) \<Rightarrow> Return r st2) (\<lambda>_ st2.
                    bind (if bg = 0 then waitfg p sy st2
                          else Return () (printf (''['' @ fmt_d (pid2jid (jobs st2) p) @ ''] (''
                                                  @ fmt_d p @ '') '' @ cmdl) st2)) (\<lambda>_ st3.
                    Return () (snd (sigprocmask (SIG_UNBLOCK mask) st3)))))
            else Return () st))"

section \<open>Starting states\<close>

text \<open>
  The state in which \<open>main\<close> enters its loop: the static array \<open>jobs\<close> after
  \<open>initjobs(jobs)\<close>, \<open>verbose\<close> off, nothing printed and no signal blocked.
  \<open>started p s c st\<close> is \<open>st\<close> after the statement \<open>addjob(jobs, p, s, c);\<close>.
\<close>

definition boot :: shell where
  "boot = \<lparr>jobs = initjobs (replicate MAXJOBS \<lparr>pid = 0, jid = 0, state = 0, cmdline = []\<rparr>),
           verbose = 0, out = [], kills = [], blocked = {}, sigcalls = []\<rparr>"

definition started :: "int \<Rightarrow> int \<Rightarrow> string \<Rightarrow> shell \<Rightarrow> shell" where
  "started p s c st = (case addjob p s c st of Some (r, st') \<Rightarrow> st' | None \<Rightarrow> st)"

section \<open>Sequences of table operations\<close>

text \<open>
  A register is the statement \<open>addjob(jobs, pid, state, cmdline);\<close>, a remove the
  statement \<open>deletejob(jobs, pid);\<close>. A register that returns 0 leaves the table as it
  is and the run goes on; the run is \<open>None\<close> only where C leaves \<open>addjob\<close> undefined.
\<close>

datatype table_op = Register int int string | Remove int

fun apply_op :: "table_op \<Rightarrow> shell \<Rightarrow> shell option" where
  "apply_op (Register p s c) st = map_option snd (addjob p s c st)"
| "apply_op (Remove p) st = Some (delete_in p st)"

fun run_ops :: "table_op list \<Rightarrow> shell \<Rightarrow> shell option" where
  "run_ops [] st = Some st"
| "run_ops (x # xs) st = (case apply_op x st of None \<Rightarrow> None | Some st' \<Rightarrow> run_ops xs st')"

text \<open>
  \<open>fresh_pids ops st\<close>: along the run, every register is given a pid that no slot holds
  at that moment (\<open>getjobpid\<close> finds none), as the pid of a new child is.
\<close>

fun fresh_pids :: "table_op list \<Rightarrow> shell \<Rightarrow> bool" where
  "fresh_pids [] st = True"
| "fresh_pids (x # xs) st =
     ((case x of Register p s c \<Rightarrow> getjobpid (jobs st) p = None | Remove p \<Rightarrow> True)
      \<and> (case apply_op x st of None \<Rightarrow> True | Some st' \<Rightarrow> fresh_pids xs st'))"

text \<open>The job ids and the pids of the live jobs: the slots with \<open>pid != 0\<close>, in slot order.\<close>

definition live_jids :: "job_t list \<Rightarrow> int list" where
  "live_jids js = map jid (filter (\<lambda>j. pid j \<noteq> 0) js)"

definition live_pids :: "job_t list \<Rightarrow> int list" where
  "live_pids js = map pid (filter (\<lambda>j. pid j \<noteq> 0) js)"

definition smallest_unused :: "int \<Rightarrow> int list \<Rightarrow> bool" where
  "smallest_unused f used = (0 < f \<and> f \<notin> set used \<and> (\<forall>k\<in>{1..<f}. k \<in> set used))"

text \<open>
  What every table built by \<open>initjobs\<close>, \<open>addjob\<close> and \<open>deletejob\<close> satisfies: it has
  \<open>MAXJOBS\<close> slots, a free slot has job id 0, a live slot a job id in \<open>1..MAXJOBS\<close>, and
  the job ids of the live slots differ.
\<close>

definition table_inv :: "job_t list \<Rightarrow> bool" where
  "table_inv js =
     (length js = MAXJOBS
      \<and> (\<forall>j\<in>set js. (pid j = 0 \<longrightarrow> jid j = 0) \<and> (pid j \<noteq> 0 \<longrightarrow> 1 \<le> jid j \<and> jid j \<le> int MAXJOBS))
      \<and> distinct (live_jids js))"

section \<open>Runs of the shell\<close>

text \<open>
  The shell as a machine whose steps each run to completion: a command line read at the
  prompt and evaluated by \<open>eval\<close> with the kernel's answers; a signal delivered, its
  handler run; \<open>waitpid\<close> returning to a shell that was blocked in \<open>waitfg\<close>. The shell is
  at the prompt or inside \<open>waitfg(p)\<close>; there a handler may run, but no command is read.
  \<open>fork\<close> never returns the pid of a child that has not been reaped, and a job leaves
  the table only when its child is reaped, so a command whose \<open>fork_ret\<close> is held by a
  slot is no step. A step is \<open>None\<close> as well when the process exits or C leaves the
  behaviour undefined. (\<open>eval\<close> is blocked only inside \<open>do_bgfg\<close>, after which it has
  nothing left to do: what \<open>waitfg\<close> returns is what the command returns.)
\<close>

datatype event =
  Command string sys | Sigchld "(int \<times> wstatus) list" | Sigint | Sigtstp | Wakeup sys

datatype control = AtPrompt | InWaitfg int

fun step :: "event \<Rightarrow> control \<times> shell \<Rightarrow> (control \<times> shell) option" where
  "step (Command cmdl sy) (AtPrompt, st) =
     (if 0 < fork_ret sy \<and> getjobpid (jobs st) (fork_ret sy) \<noteq> None then None
      else case eval cmdl sy st of
             Return _ st' \<Rightarrow> Some (AtPrompt, st')
           | Blocked p st' \<Rightarrow> Some (InWaitfg p, st')
           | _ \<Rightarrow> None)"
| "step (Command cmdl sy) (InWaitfg p, st) = None"
| "step (Sigchld reaped) (c, st) = Some (c, sigchld_handler reaped st)"
| "step Sigint (c, st) = Some (c, sigint_handler st)"
| "step Sigtstp (c, st) = Some (c, sigtstp_handler st)"
| "step (Wakeup sy) (InWaitfg p, st) =
     (case waitfg_loop p sy (waitpid_rets sy) st of
        Return _ st' \<Rightarrow> Some (AtPrompt, st')
      | Blocked p' st' \<Rightarrow> Some (InWaitfg p', st')
      | _ \<Rightarrow> None)"
| "step (Wakeup sy) (AtPrompt, st) = None"

fun run :: "event list \<Rightarrow> control \<times> shell \<Rightarrow> (control \<times> shell) option" where
  "run [] cf = Some cf"
| "run (e # es) cf = (case step e cf of None \<Rightarrow> None | Some cf' \<Rightarrow> run es cf')"

text \<open>
  The invariant of these runs: the table is well formed, no two live slots share a pid,
  no pid is negative, and a slot is in state \<open>FG\<close> only while the shell is inside
  \<open>waitfg(p)\<close> and only if it holds the pid \<open>p\<close>.
\<close>

definition fg_inv :: "control \<Rightarrow> job_t list \<Rightarrow> bool" where
  "fg_inv c js =
     (table_inv js \<and> distinct (live_pids js) \<and> (\<forall>j\<in>set js. 0 \<le> pid j)
      \<and> (case c of
            AtPrompt \<Rightarrow> \<forall>j\<in>set js. state j \<noteq> FG
          | InWaitfg p \<Rightarrow> 1 \<le> p \<and> (\<forall>j\<in>set js. state j = FG \<longrightarrow> pid j = p)))"

section \<open>Properties\<close>

subsection \<open>The lookup loop\<close>

lemma first_index_Some:
  "first_index P xs = Some i \<Longrightarrow> i < length xs \<and> P (xs ! i) \<and> (\<forall>j<i. \<not> P (xs ! j))"
proof (induction xs arbitrary: i)
  case Nil
  then show ?case by simp
next
  case (Cons x xs)
  show ?case
  proof (cases "P x")
    case True
    with Cons.prems show ?thesis by simp
  next
    case False
    with Cons.prems obtain k where k: "first_index P xs = Some k" "i = Suc k" by auto
    from Cons.IH[OF k(1)] False k(2) show ?thesis by (auto simp: less_Suc_eq_0_disj)
  qed
qed

lemma first_index_None: "first_index P xs = None \<longleftrightarrow> (\<forall>x\<in>set xs. \<not> P x)"
  by (induction xs) auto

lemma first_index_update_same:
  "k < length xs \<Longrightarrow> P y = P (xs ! k) \<Longrightarrow> first_index P (xs[k := y]) = first_index P xs"
  by (induction xs arbitrary: k) (auto split: nat.splits)

lemma first_index_update_only:
  "first_index P xs = Some f \<Longrightarrow> length (filter P xs) \<le> 1 \<Longrightarrow> \<not> P y
   \<Longrightarrow> first_index P (xs[f := y]) = None"
proof (induction xs arbitrary: f)
  case Nil
  then show ?case by simp
next
  case (Cons x xs)
  show ?case
  proof (cases "P x")
    case True
    with Cons.prems have "f = 0" "filter P xs = []" by auto
    then have "first_index P xs = None" by (simp add: first_index_None filter_empty_conv)
    with \<open>f = 0\<close> Cons.prems(3) show ?thesis by simp
  next
    case False
    with Cons.prems obtain k where k: "first_index P xs = Some k" "f = Suc k" by auto
    with Cons.IH[of k] Cons.prems False show ?thesis by simp
  qed
qed

lemma first_index_only:
  "length (filter P xs) \<le> 1 \<Longrightarrow> x \<in> set xs \<Longrightarrow> P x
   \<Longrightarrow> \<exists>i. first_index P xs = Some i \<and> xs ! i = x"
proof (induction xs)
  case Nil
  then show ?case by simp
next
  case (Cons a xs)
  show ?case
  proof (cases "P a")
    case True
    with Cons.prems(1) have "filter P xs = []" by simp
    then have "\<forall>y\<in>set xs. \<not> P y" by (simp add: filter_empty_conv)
    with Cons.prems(2,3) have "x = a" by auto
    with True show ?thesis by simp
  next
    case False
    with Cons.prems have "length (filter P xs) \<le> 1" "x \<in> set xs" by auto
    from Cons.IH[OF this Cons.prems(3)] obtain i where "first_index P xs = Some i" "xs ! i = x"
      by blast
    with False show ?thesis by simp
  qed
qed

subsection \<open>Non-positive keys\<close>

text \<open>
  Claim C10. For every job table and every key \<open>k \<le> 0\<close> (0 is what the pid field of a
  free slot holds), \<open>getjobpid\<close> and \<open>getjobjid\<close> return \<open>NULL\<close>, \<open>pid2jid\<close> returns 0,
  and \<open>deletejob\<close> returns 0 and leaves the table as it was: no free slot is matched,
  returned or cleared through such a key.
\<close>

theorem nonpositive_key_not_found:
  assumes "k \<le> 0"
  shows "getjobpid js k = None \<and> getjobjid js k = None \<and> pid2jid js k = 0
         \<and> deletejob js k = (0, js)"
  using assms by (simp add: getjobpid_def getjobjid_def pid2jid_def deletejob_def)

theorem nonpositive_key_not_found_witness:
  "(0::int) \<le> 0
   \<and> getjobpid [\<lparr>pid = 0, jid = 0, state = 0, cmdline = []\<rparr>] 0 = None
   \<and> getjobjid [\<lparr>pid = 0, jid = 0, state = 0, cmdline = []\<rparr>] 0 = None
   \<and> pid2jid [\<lparr>pid = 0, jid = 0, state = 0, cmdline = []\<rparr>] 0 = 0
   \<and> deletejob [\<lparr>pid = 0, jid = 0, state = 0, cmdline = []\<rparr>] 0
       = (0, [\<lparr>pid = 0, jid = 0, state = 0, cmdline = []\<rparr>])"
  using nonpositive_key_not_found [of 0 "[\<lparr>pid = 0, jid = 0, state = 0, cmdline = []\<rparr>]"]
  by simp

subsection \<open>Job ids and registration\<close>

lemma mark_taken_Some:
  "\<forall>j\<in>set js. jid j \<noteq> 0 \<longrightarrow> 0 \<le> jid j \<and> nat (jid j) < length taken \<Longrightarrow>
   \<exists>t. mark_taken js taken = Some t \<and> length t = length taken
       \<and> (\<forall>i<length taken. t ! i = (taken ! i \<or> (\<exists>j\<in>set js. jid j \<noteq> 0 \<and> nat (jid j) = i)))"
proof (induction js arbitrary: taken)
  case Nil
  then show ?case by simp
next
  case (Cons j js)
  show ?case
  proof (cases "jid j = 0")
    case True
    with Cons.IH[of taken] Cons.prems show ?thesis by auto
  next
    case False
    let ?t = "taken[nat (jid j) := True]"
    from Cons.prems
    have "\<forall>j\<in>set js. jid j \<noteq> 0 \<longrightarrow> 0 \<le> jid j \<and> nat (jid j) < length ?t" by simp
    from Cons.IH[OF this] obtain t where t: "mark_taken js ?t = Some t" "length t = length taken"
      "\<forall>i<length taken. t ! i = (?t ! i \<or> (\<exists>j\<in>set js. jid j \<noteq> 0 \<and> nat (jid j) = i))"
      by auto
    have "mark_taken (j # js) taken = Some t" using False Cons.prems t(1) by simp
    moreover have "\<forall>i<length taken. t ! i = (taken ! i \<or> (\<exists>j'\<in>set (j # js). jid j' \<noteq> 0 \<and> nat (jid j') = i))"
      using t(3) False Cons.prems by (auto simp: nth_list_update)
    ultimately show ?thesis using t(2) by blast
  qed
qed

lemma mark_taken_None:
  "mark_taken js taken = None
   \<longleftrightarrow> (\<exists>j\<in>set js. jid j \<noteq> 0 \<and> \<not> (0 \<le> jid j \<and> nat (jid j) < length taken))"
proof (induction js arbitrary: taken)
  case Nil
  then show ?case by simp
next
  case (Cons j js)
  show ?case using Cons.IH[of taken] Cons.IH[of "taken[nat (jid j) := True]"] by auto
qed

lemma find_upt_Some:
  assumes "find P [a..<b] = Some i"
  shows "a \<le> i \<and> i < b \<and> P i \<and> (\<forall>m. a \<le> m \<and> m < i \<longrightarrow> \<not> P m)"
proof -
  from assms obtain n where n: "n < length [a..<b]" "P ([a..<b] ! n)" "i = [a..<b] ! n"
    "\<forall>m<n. \<not> P ([a..<b] ! m)" by (auto simp: find_Some_iff)
  then have i: "i = a + n" "n < b - a" by auto
  have "\<not> P m" if "a \<le> m" "m < i" for m
  proof -
    from that i have "m - a < n" by auto
    with n(4) have "\<not> P ([a..<b] ! (m - a))" by blast
    moreover have "[a..<b] ! (m - a) = m" using that i by auto
    ultimately show ?thesis by simp
  qed
  with n i show ?thesis by auto
qed

lemma find_upt_None: "find P [a..<b] = None \<longleftrightarrow> (\<forall>i. a \<le> i \<and> i < b \<longrightarrow> \<not> P i)"
  by (auto simp: find_None_iff)

text \<open>What \<open>freejid\<close> returns, in terms of the job ids the slots hold.\<close>

lemma freejid_spec:
  assumes "freejid js = Some f"
  shows "(f = 0 \<and> (\<forall>k. 1 \<le> k \<and> k \<le> int MAXJOBS \<longrightarrow> k \<in> jid ` set js))
       \<or> (1 \<le> f \<and> f \<le> int MAXJOBS \<and> f \<notin> jid ` set js
           \<and> (\<forall>k. 1 \<le> k \<and> k < f \<longrightarrow> k \<in> jid ` set js))"
proof -
  from assms obtain t where t: "mark_taken js (replicate (MAXJOBS + 1) False) = Some t"
    and f: "f = first_untaken t" by (auto simp: freejid_def)
  from t have "mark_taken js (replicate (MAXJOBS + 1) False) \<noteq> None" by simp
  then have rng: "\<forall>j\<in>set js. jid j \<noteq> 0 \<longrightarrow>
                     0 \<le> jid j \<and> nat (jid j) < length (replicate (MAXJOBS + 1) False)"
    unfolding mark_taken_None by blast
  from mark_taken_Some[OF rng] t
  have "\<forall>i<length (replicate (MAXJOBS + 1) False).
          t ! i = (replicate (MAXJOBS + 1) False ! i \<or> (\<exists>j\<in>set js. jid j \<noteq> 0 \<and> nat (jid j) = i))"
    by auto
  then have tt: "\<forall>i<MAXJOBS + 1. t ! i = (\<exists>j\<in>set js. jid j \<noteq> 0 \<and> nat (jid j) = i)"
    by (simp del: replicate_Suc replicate.simps)
  have mem: "t ! i \<longleftrightarrow> int i \<in> jid ` set js" if "1 \<le> i" "i \<le> MAXJOBS" for i
  proof -
    have "t ! i = (\<exists>j\<in>set js. jid j \<noteq> 0 \<and> nat (jid j) = i)" using tt that by simp
    also have "\<dots> \<longleftrightarrow> int i \<in> jid ` set js"
    proof
      assume "\<exists>j\<in>set js. jid j \<noteq> 0 \<and> nat (jid j) = i"
      then obtain j where "j \<in> set js" "jid j \<noteq> 0" "nat (jid j) = i" by blast
      moreover with that have "jid j = int i" by auto
      ultimately show "int i \<in> jid ` set js" by (metis imageI)
    next
      assume "int i \<in> jid ` set js"
      then obtain j where "j \<in> set js" "jid j = int i" by auto
      with that have "j \<in> set js \<and> jid j \<noteq> 0 \<and> nat (jid j) = i" by auto
      then show "\<exists>j\<in>set js. jid j \<noteq> 0 \<and> nat (jid j) = i" by blast
    qed
    finally show ?thesis .
  qed
  show ?thesis
  proof (cases "find (\<lambda>i. \<not> t ! i) [1..<Suc MAXJOBS]")
    case None
    then have "f = 0" using f by (simp add: first_untaken_def)
    moreover from None have a: "\<forall>i. 1 \<le> i \<and> i \<le> MAXJOBS \<longrightarrow> t ! i"
      unfolding find_upt_None by auto
    have "\<forall>k. 1 \<le> k \<and> k \<le> int MAXJOBS \<longrightarrow> k \<in> jid ` set js"
    proof (intro allI impI)
      fix k assume k: "1 \<le> k \<and> k \<le> int MAXJOBS"
      then have "1 \<le> nat k" "nat k \<le> MAXJOBS" by auto
      with a mem[of "nat k"] k show "k \<in> jid ` set js" by auto
    qed
    ultimately show ?thesis by blast
  next
    case (Some i)
    then have fi: "f = int i" using f by (simp add: first_untaken_def)
    from find_upt_Some[OF Some]
    have i: "1 \<le> i" "i \<le> MAXJOBS" "\<not> t ! i" and before: "\<forall>m. 1 \<le> m \<and> m < i \<longrightarrow> t ! m"
      by auto
    have "f \<notin> jid ` set js" using mem[of i] i fi by simp
    moreover have "\<forall>k. 1 \<le> k \<and> k < f \<longrightarrow> k \<in> jid ` set js"
    proof (intro allI impI)
      fix k assume k: "1 \<le> k \<and> k < f"
      then have "1 \<le> nat k" "nat k < i" "nat k \<le> MAXJOBS" using fi i by auto
      with before mem[of "nat k"] k show "k \<in> jid ` set js" by auto
    qed
    ultimately show ?thesis using fi i by auto
  qed
qed


lemma freejid_defined:
  "\<forall>j\<in>set js. 0 \<le> jid j \<and> jid j \<le> int MAXJOBS \<Longrightarrow> \<exists>f. freejid js = Some f"
proof -
  assume a: "\<forall>j\<in>set js. 0 \<le> jid j \<and> jid j \<le> int MAXJOBS"
  have "mark_taken js (replicate (MAXJOBS + 1) False) \<noteq> None"
    unfolding mark_taken_None using a by auto
  then show ?thesis by (auto simp: freejid_def)
qed

lemma job_overwrite:
  "(j::job_t)\<lparr>pid := p, state := s, jid := f, cmdline := c\<rparr>
   = \<lparr>pid = p, jid = f, state = s, cmdline = c\<rparr>"
  by (cases j) simp

text \<open>The three ways \<open>addjob\<close> ends when it is defined.\<close>

lemma addjob_cases:
  assumes "addjob p s c st = Some (r, st')"
  shows "(r = 0 \<and> jobs st' = jobs st)
       \<or> (r = 1 \<and> 1 \<le> p \<and> length c < MAXLINE
           \<and> (\<exists>i f. first_index (\<lambda>j. pid j = 0) (jobs st) = Some i
                 \<and> freejid (jobs st) = Some f \<and> f \<noteq> 0
                 \<and> jobs st' = (jobs st)[i := \<lparr>pid = p, jid = f, state = s, cmdline = c\<rparr>]))"
  using assms
  by (auto simp: addjob_def printf_def Let_def job_overwrite split: if_splits option.splits)

subsection \<open>Tables built by the table's own operations\<close>

lemma live_split:
  assumes "i < length js"
  shows "filter P js = filter P (take i js) @ filter P [js ! i] @ filter P (drop (Suc i) js)"
    and "filter P (js[i := x]) = filter P (take i js) @ filter P [x] @ filter P (drop (Suc i) js)"
proof -
  have "js = take i js @ js ! i # drop (Suc i) js" using assms by (rule id_take_nth_drop)
  then have "filter P js = filter P (take i js @ js ! i # drop (Suc i) js)" by simp
  then show "filter P js = filter P (take i js) @ filter P [js ! i] @ filter P (drop (Suc i) js)"
    by simp
  have "js[i := x] = take i js @ x # drop (Suc i) js" using assms by (rule upd_conv_take_nth_drop)
  then show "filter P (js[i := x]) = filter P (take i js) @ filter P [x] @ filter P (drop (Suc i) js)"
    by simp
qed

lemma set_update_subset: "y \<in> set (xs[i := x]) \<Longrightarrow> y = x \<or> y \<in> set xs"
  by (metis insertE set_update_subset_insert subsetD)

lemma table_inv_init: "length arr = MAXJOBS \<Longrightarrow> table_inv (initjobs arr)"
  by (auto simp: table_inv_def initjobs_def clearjob_def live_jids_def filter_empty_conv)

lemma live_jids_mem:
  "table_inv js \<Longrightarrow> k \<noteq> 0 \<Longrightarrow> k \<in> set (live_jids js) \<longleftrightarrow> k \<in> jid ` set js"
  by (auto simp: table_inv_def live_jids_def)

lemma table_inv_register:
  assumes inv: "table_inv js" and i: "first_index (\<lambda>j. pid j = 0) js = Some i"
    and f: "freejid js = Some f" "f \<noteq> 0" and p: "1 \<le> p"
  shows "table_inv (js[i := \<lparr>pid = p, jid = f, state = s, cmdline = c\<rparr>])"
    and "smallest_unused f (live_jids js)"
proof -
  let ?new = "\<lparr>pid = p, jid = f, state = s, cmdline = c\<rparr>"
  from first_index_Some[OF i] have il: "i < length js" and free: "pid (js ! i) = 0" by auto
  from freejid_spec[OF f(1)] f(2)
  have fr: "1 \<le> f" "f \<le> int MAXJOBS" "f \<notin> jid ` set js"
    and below: "\<forall>k. 1 \<le> k \<and> k < f \<longrightarrow> k \<in> jid ` set js" by auto
  have notin: "f \<notin> set (live_jids js)" using fr(3) by (auto simp: live_jids_def)
  have "\<forall>k\<in>{1..<f}. k \<in> set (live_jids js)"
    using below live_jids_mem[OF inv] by auto
  with fr notin show "smallest_unused f (live_jids js)" by (simp add: smallest_unused_def)
  have old: "live_jids js = live_jids (take i js) @ live_jids (drop (Suc i) js)"
    using live_split(1)[OF il, of "\<lambda>j. pid j \<noteq> 0"] free by (simp add: live_jids_def)
  have new: "live_jids (js[i := ?new]) = live_jids (take i js) @ [f] @ live_jids (drop (Suc i) js)"
    using live_split(2)[OF il, of "\<lambda>j. pid j \<noteq> 0" ?new] p by (simp add: live_jids_def)
  have d: "distinct (live_jids (js[i := ?new]))"
    using inv notin unfolding new old table_inv_def by auto
  have "\<forall>j\<in>set (js[i := ?new]). (pid j = 0 \<longrightarrow> jid j = 0) \<and> (pid j \<noteq> 0 \<longrightarrow> 1 \<le> jid j \<and> jid j \<le> int MAXJOBS)"
  proof
    fix j assume "j \<in> set (js[i := ?new])"
    then have "j = ?new \<or> j \<in> set js" by (rule set_update_subset)
    then show "(pid j = 0 \<longrightarrow> jid j = 0) \<and> (pid j \<noteq> 0 \<longrightarrow> 1 \<le> jid j \<and> jid j \<le> int MAXJOBS)"
      using inv fr p by (auto simp: table_inv_def)
  qed
  with d inv show "table_inv (js[i := ?new])" by (simp add: table_inv_def)
qed

lemma table_inv_addjob:
  assumes "table_inv (jobs st)" "addjob p s c st = Some (r, st')"
  shows "table_inv (jobs st')"
  using addjob_cases[OF assms(2)] assms(1) table_inv_register(1) by auto

lemma table_inv_delete: 
  assumes inv: "table_inv js" shows "table_inv (snd (deletejob js p))"
proof (cases "p < 1 \<or> first_index (\<lambda>j. pid j = p) js = None")
  case True
  then show ?thesis using inv by (auto simp: deletejob_def)
next
  case False
  then obtain i where i: "first_index (\<lambda>j. pid j = p) js = Some i" and p: "\<not> p < 1" by auto
  from first_index_Some[OF i] have il: "i < length js" by auto
  let ?new = "clearjob (js ! i)"
  have res: "snd (deletejob js p) = js[i := ?new]" using i p by (simp add: deletejob_def)
  have new: "live_jids (js[i := ?new]) = live_jids (take i js) @ live_jids (drop (Suc i) js)"
    using live_split(2)[OF il, of "\<lambda>j. pid j \<noteq> 0" ?new] by (simp add: live_jids_def clearjob_def)
  have old: "live_jids js = live_jids (take i js) @ map jid (filter (\<lambda>j. pid j \<noteq> 0) [js ! i]) @ live_jids (drop (Suc i) js)"
    using live_split(1)[OF il, of "\<lambda>j. pid j \<noteq> 0"] by (simp add: live_jids_def)
  have d: "distinct (live_jids (js[i := ?new]))"
    using inv unfolding new table_inv_def old by auto
  have "\<forall>j\<in>set (js[i := ?new]). (pid j = 0 \<longrightarrow> jid j = 0) \<and> (pid j \<noteq> 0 \<longrightarrow> 1 \<le> jid j \<and> jid j \<le> int MAXJOBS)"
  proof
    fix j assume "j \<in> set (js[i := ?new])"
    then have "j = ?new \<or> j \<in> set js" by (rule set_update_subset)
    then show "(pid j = 0 \<longrightarrow> jid j = 0) \<and> (pid j \<noteq> 0 \<longrightarrow> 1 \<le> jid j \<and> jid j \<le> int MAXJOBS)"
      using inv by (auto simp: table_inv_def clearjob_def)
  qed
  with d inv show ?thesis unfolding res by (simp add: table_inv_def)
qed

lemma run_ops_inv:
  "table_inv (jobs st0) \<Longrightarrow> run_ops ops st0 = Some st \<Longrightarrow> table_inv (jobs st)"
proof (induction ops arbitrary: st0)
  case Nil
  then show ?case by simp
next
  case (Cons x xs)
  from Cons.prems(2) obtain st1 where s1: "apply_op x st0 = Some st1" "run_ops xs st1 = Some st"
    by (auto split: option.splits)
  have "table_inv (jobs st1)"
  proof (cases x)
    case (Register p s c)
    with s1(1) obtain r where "addjob p s c st0 = Some (r, st1)" by auto
    then show ?thesis using Cons.prems(1) by (rule table_inv_addjob[rotated])
  next
    case (Remove p)
    with s1(1) show ?thesis using table_inv_delete[OF Cons.prems(1), of p] by (auto simp: delete_in_def)
  qed
  from Cons.IH[OF this s1(2)] show ?case .
qed


lemma live_pids_register:
  assumes d: "distinct (live_pids js)" and i: "first_index (\<lambda>j. pid j = 0) js = Some i"
    and fresh: "getjobpid js p = None" and p: "1 \<le> p"
  shows "distinct (live_pids (js[i := \<lparr>pid = p, jid = f, state = s, cmdline = c\<rparr>]))"
proof -
  let ?new = "\<lparr>pid = p, jid = f, state = s, cmdline = c\<rparr>"
  from first_index_Some[OF i] have il: "i < length js" and free: "pid (js ! i) = 0" by auto
  from fresh p have "first_index (\<lambda>j. pid j = p) js = None" by (simp add: getjobpid_def)
  then have notin: "p \<notin> set (live_pids js)" by (auto simp: first_index_None live_pids_def)
  have old: "live_pids js = live_pids (take i js) @ live_pids (drop (Suc i) js)"
    using live_split(1)[OF il, of "\<lambda>j. pid j \<noteq> 0"] free by (simp add: live_pids_def)
  have new: "live_pids (js[i := ?new]) = live_pids (take i js) @ [p] @ live_pids (drop (Suc i) js)"
    using live_split(2)[OF il, of "\<lambda>j. pid j \<noteq> 0" ?new] p by (simp add: live_pids_def)
  show ?thesis using d notin unfolding new old by auto
qed

lemma live_pids_delete:
  assumes d: "distinct (live_pids js)" shows "distinct (live_pids (snd (deletejob js p)))"
proof (cases "p < 1 \<or> first_index (\<lambda>j. pid j = p) js = None")
  case True
  then show ?thesis using d by (auto simp: deletejob_def)
next
  case False
  then obtain i where i: "first_index (\<lambda>j. pid j = p) js = Some i" and p: "\<not> p < 1" by auto
  from first_index_Some[OF i] have il: "i < length js" by auto
  let ?new = "clearjob (js ! i)"
  have res: "snd (deletejob js p) = js[i := ?new]" using i p by (simp add: deletejob_def)
  have new: "live_pids (js[i := ?new]) = live_pids (take i js) @ live_pids (drop (Suc i) js)"
    using live_split(2)[OF il, of "\<lambda>j. pid j \<noteq> 0" ?new] by (simp add: live_pids_def clearjob_def)
  have old: "live_pids js = live_pids (take i js) @ map pid (filter (\<lambda>j. pid j \<noteq> 0) [js ! i]) @ live_pids (drop (Suc i) js)"
    using live_split(1)[OF il, of "\<lambda>j. pid j \<noteq> 0"] by (simp add: live_pids_def)
  show ?thesis using d unfolding res new old by auto
qed

lemma run_ops_pids:
  "distinct (live_pids (jobs st0)) \<Longrightarrow> fresh_pids ops st0 \<Longrightarrow> run_ops ops st0 = Some st
   \<Longrightarrow> distinct (live_pids (jobs st))"
proof (induction ops arbitrary: st0)
  case Nil
  then show ?case by simp
next
  case (Cons x xs)
  from Cons.prems(3) obtain st1 where s1: "apply_op x st0 = Some st1" "run_ops xs st1 = Some st"
    by (auto split: option.splits)
  from Cons.prems(2) s1(1) have fr: "fresh_pids xs st1" by simp
  have "distinct (live_pids (jobs st1))"
  proof (cases x)
    case (Register p s c)
    with s1(1) obtain r where a: "addjob p s c st0 = Some (r, st1)" by auto
    from Cons.prems(2) Register have g: "getjobpid (jobs st0) p = None" by simp
    from addjob_cases[OF a] show ?thesis
      using Cons.prems(1) g live_pids_register[of "jobs st0" _ p] by auto
  next
    case (Remove p)
    with s1(1) show ?thesis using live_pids_delete[OF Cons.prems(1), of p] by (auto simp: delete_in_def)
  qed
  from Cons.IH[OF this fr s1(2)] show ?case .
qed

lemma table_inv_range:
  assumes "table_inv js" and "j \<in> set js"
  shows "0 \<le> jid j \<and> jid j \<le> int MAXJOBS"
proof -
  from assms have "(pid j = 0 \<longrightarrow> jid j = 0) \<and> (pid j \<noteq> 0 \<longrightarrow> 1 \<le> jid j \<and> jid j \<le> int MAXJOBS)"
    by (simp add: table_inv_def)
  then show ?thesis by (cases "pid j = 0") simp_all
qed

lemma freejid_full:
  assumes inv: "table_inv js" and full: "\<forall>j\<in>set js. pid j \<noteq> 0"
  shows "freejid js = Some 0"
proof -
  from inv have rng: "\<forall>j\<in>set js. 0 \<le> jid j \<and> jid j \<le> int MAXJOBS"
    by (blast dest: table_inv_range)
  from freejid_defined[OF rng] obtain f where f: "freejid js = Some f" by blast
  have lj: "live_jids js = map jid js" using full by (simp add: live_jids_def)
  with inv have d: "distinct (map jid js)" and len: "length js = MAXJOBS"
    by (simp_all add: table_inv_def)
  have sub: "jid ` set js \<subseteq> {1..int MAXJOBS}" using inv full by (auto simp: table_inv_def)
  have "card (set (map jid js)) = length (map jid js)" using d by (rule distinct_card)
  then have c: "card (jid ` set js) = MAXJOBS" using len by simp
  have fin: "finite {1..int MAXJOBS}" by simp
  have "card {1..int MAXJOBS} = MAXJOBS" by simp
  with c have "card (jid ` set js) = card {1..int MAXJOBS}" by simp
  with fin sub have all: "jid ` set js = {1..int MAXJOBS}" by (rule card_subset_eq)
  show ?thesis
  proof (rule ccontr)
    assume "freejid js \<noteq> Some 0"
    with f have "f \<noteq> 0" by auto
    with freejid_spec[OF f] have "1 \<le> f \<and> f \<le> int MAXJOBS" "f \<notin> jid ` set js" by blast+
    then show False unfolding all by simp
  qed
qed

lemma freejid_not_full:
  assumes inv: "table_inv js" and free: "\<exists>j\<in>set js. pid j = 0"
  shows "\<exists>f. freejid js = Some f \<and> f \<noteq> 0"
proof -
  from inv have rng: "\<forall>j\<in>set js. 0 \<le> jid j \<and> jid j \<le> int MAXJOBS"
    by (blast dest: table_inv_range)
  from freejid_defined[OF rng] obtain f where f: "freejid js = Some f" by blast
  have "f \<noteq> 0"
  proof
    assume "f = 0"
    with freejid_spec[OF f] have "\<forall>k. 1 \<le> k \<and> k \<le> int MAXJOBS \<longrightarrow> k \<in> jid ` set js" by auto
    then have "{1..int MAXJOBS} \<subseteq> set (live_jids js)"
      using live_jids_mem[OF inv] by auto
    then have "card {1..int MAXJOBS} \<le> card (set (live_jids js))"
      by (intro card_mono) auto
    also have "\<dots> \<le> length (live_jids js)" by (rule card_length)
    also have "\<dots> = length (filter (\<lambda>j. pid j \<noteq> 0) js)" by (simp add: live_jids_def)
    also have "\<dots> < length js"
    proof -
      from free obtain j where "j \<in> set js" "\<not> pid j \<noteq> 0" by auto
      then show ?thesis by (rule length_filter_less)
    qed
    finally show False using inv by (simp add: table_inv_def)
  qed
  with f show ?thesis by blast
qed

text \<open>
  Claim C4. \<open>addjob\<close> returns 0 and leaves the state as it is when \<open>pid < 1\<close>; it returns 0
  and changes nothing but the output (one line, \<open>Tried to create too many jobs\<close>) when
  \<open>freejid\<close> finds no free job id, which is the case of every table built by the
  table's own operations whose slots are all live. Whenever it returns 0 the table is
  unchanged. When it returns 1, the first slot whose pid is 0 now holds the pid, the
  state and the whole command text it was given, with the job id \<open>freejid\<close> returned,
  which is positive and was the id of no slot; every other slot is as before.
\<close>

theorem addjob_contract:
  "(p < 1 \<longrightarrow> addjob p s c st = Some (0, st))
   \<and> (1 \<le> p \<and> freejid (jobs st) = Some 0
        \<longrightarrow> addjob p s c st = Some (0, printf ''Tried to create too many jobs\<newline>'' st)
            \<and> jobs (printf ''Tried to create too many jobs\<newline>'' st) = jobs st)
   \<and> (table_inv (jobs st) \<and> (\<forall>j\<in>set (jobs st). pid j \<noteq> 0) \<longrightarrow> freejid (jobs st) = Some 0)
   \<and> (\<forall>r st'. addjob p s c st = Some (r, st') \<longrightarrow>
        (r = 0 \<and> jobs st' = jobs st)
        \<or> (r = 1 \<and> (\<exists>i f. first_index (\<lambda>j. pid j = 0) (jobs st) = Some i
                       \<and> freejid (jobs st) = Some f \<and> 1 \<le> f \<and> f \<notin> jid ` set (jobs st)
                       \<and> jobs st' = (jobs st)[i := \<lparr>pid = p, jid = f, state = s, cmdline = c\<rparr>])))"
proof (intro conjI allI impI)
  show "addjob p s c st = Some (0, st)" if "p < 1" using that by (simp add: addjob_def)
  show "addjob p s c st = Some (0, printf ''Tried to create too many jobs\<newline>'' st)"
    if "1 \<le> p \<and> freejid (jobs st) = Some 0" using that by (simp add: addjob_def)
  show "jobs (printf ''Tried to create too many jobs\<newline>'' st) = jobs st"
    by (simp add: printf_def)
  show "freejid (jobs st) = Some 0" if "table_inv (jobs st) \<and> (\<forall>j\<in>set (jobs st). pid j \<noteq> 0)"
    using that freejid_full by blast
  fix r st' assume a: "addjob p s c st = Some (r, st')"
  from addjob_cases[OF a] show "(r = 0 \<and> jobs st' = jobs st)
        \<or> (r = 1 \<and> (\<exists>i f. first_index (\<lambda>j. pid j = 0) (jobs st) = Some i
                       \<and> freejid (jobs st) = Some f \<and> 1 \<le> f \<and> f \<notin> jid ` set (jobs st)
                       \<and> jobs st' = (jobs st)[i := \<lparr>pid = p, jid = f, state = s, cmdline = c\<rparr>]))"
  proof
    assume "r = 0 \<and> jobs st' = jobs st" then show ?thesis by blast
  next
    assume "r = 1 \<and> 1 \<le> p \<and> length c < MAXLINE
           \<and> (\<exists>i f. first_index (\<lambda>j. pid j = 0) (jobs st) = Some i
                 \<and> freejid (jobs st) = Some f \<and> f \<noteq> 0
                 \<and> jobs st' = (jobs st)[i := \<lparr>pid = p, jid = f, state = s, cmdline = c\<rparr>])"
    then obtain i f where h: "r = 1" "first_index (\<lambda>j. pid j = 0) (jobs st) = Some i"
      "freejid (jobs st) = Some f" "f \<noteq> 0"
      "jobs st' = (jobs st)[i := \<lparr>pid = p, jid = f, state = s, cmdline = c\<rparr>]" by blast
    from freejid_spec[OF h(3)] h(4) have "1 \<le> f" "f \<notin> jid ` set (jobs st)" by auto
    with h show ?thesis by blast
  qed
qed

theorem addjob_contract_witness:
  "addjob 0 BG ''ls &\<newline>'' boot = Some (0, boot)
   \<and> table_inv (jobs (fold (\<lambda>n. started (100 + int n) BG ''sleep 1 &\<newline>'') [0..<MAXJOBS] boot))
   \<and> list_all (\<lambda>j. pid j \<noteq> 0) (jobs (fold (\<lambda>n. started (100 + int n) BG ''sleep 1 &\<newline>'') [0..<MAXJOBS] boot))
   \<and> freejid (jobs (fold (\<lambda>n. started (100 + int n) BG ''sleep 1 &\<newline>'') [0..<MAXJOBS] boot)) = Some 0
   \<and> addjob 7 BG ''ls &\<newline>''
        (fold (\<lambda>n. started (100 + int n) BG ''sleep 1 &\<newline>'') [0..<MAXJOBS] boot)
      = Some (0, printf ''Tried to create too many jobs\<newline>''
                  (fold (\<lambda>n. started (100 + int n) BG ''sleep 1 &\<newline>'') [0..<MAXJOBS] boot))
   \<and> jobs (printf ''Tried to create too many jobs\<newline>''
                  (fold (\<lambda>n. started (100 + int n) BG ''sleep 1 &\<newline>'') [0..<MAXJOBS] boot))
      = jobs (fold (\<lambda>n. started (100 + int n) BG ''sleep 1 &\<newline>'') [0..<MAXJOBS] boot)
   \<and> map_option fst (addjob 7 BG ''ls &\<newline>'' (started 5 ST ''vi\<newline>'' boot)) = Some 1
   \<and> map_option (jobs \<circ> snd) (addjob 7 BG ''ls &\<newline>'' (started 5 ST ''vi\<newline>'' boot))
      = Some ((jobs (started 5 ST ''vi\<newline>'' boot))[1 := \<lparr>pid = 7, jid = 2, state = BG, cmdline = ''ls &\<newline>''\<rparr>])"
proof -
  let ?full = "fold (\<lambda>n. started (100 + int n) BG ''sleep 1 &\<newline>'') [0..<MAXJOBS] boot"
  have a: "(0::int) < 1" by simp
  have i: "table_inv (jobs ?full)" by code_simp
  have l: "list_all (\<lambda>j. pid j \<noteq> 0) (jobs ?full)" by code_simp
  then have l': "\<forall>j\<in>set (jobs ?full). pid j \<noteq> 0" by (simp add: list_all_iff)
  have c: "map_option fst (addjob 7 BG ''ls &\<newline>'' (started 5 ST ''vi\<newline>'' boot)) = Some 1"
    by code_simp
  have d: "map_option (jobs \<circ> snd) (addjob 7 BG ''ls &\<newline>'' (started 5 ST ''vi\<newline>'' boot))
      = Some ((jobs (started 5 ST ''vi\<newline>'' boot))[1 := \<lparr>pid = 7, jid = 2, state = BG, cmdline = ''ls &\<newline>''\<rparr>])"
    by code_simp
  note t0 = addjob_contract[of 0 BG "''ls &\<newline>''" boot]
  have 1: "addjob 0 BG ''ls &\<newline>'' boot = Some (0, boot)"
    by (rule t0[THEN conjunct1, rule_format]) (rule a)
  note t = addjob_contract[of 7 BG "''ls &\<newline>''" ?full]
  have b: "freejid (jobs ?full) = Some 0"
    by (rule t[THEN conjunct2, THEN conjunct2, THEN conjunct1, rule_format]) (intro conjI i l')
  have p: "(1::int) \<le> 7 \<and> freejid (jobs ?full) = Some 0" using b by simp
  note t2 = t[THEN conjunct2, THEN conjunct1, rule_format, OF p]
  show ?thesis
    by (intro conjI 1 i l b c d t2[THEN conjunct1] t2[THEN conjunct2])
qed

subsection \<open>Sequences of register and remove\<close>

text \<open>
  Claim C1, amended. After any sequence of registers and removes run from an initialized
  table: no two live jobs share a job id; a register that returns 1 fills the first free
  slot and gives it the smallest positive integer that is the job id of no live job at
  that moment; and no two live jobs share a pid, provided every register of the sequence
  was given a pid that no slot held at that moment. (The state before any register of a
  sequence is the state after a shorter sequence, so the second part speaks of every
  register of every sequence.)
\<close>

theorem job_ids_smallest_and_unique:
  assumes "length arr = MAXJOBS" and "jobs st0 = initjobs arr" and "run_ops ops st0 = Some st"
  shows "distinct (live_jids (jobs st))
       \<and> (fresh_pids ops st0 \<longrightarrow> distinct (live_pids (jobs st)))
       \<and> (\<forall>p s c st'. addjob p s c st = Some (1, st') \<longrightarrow>
            (\<exists>i f. first_index (\<lambda>j. pid j = 0) (jobs st) = Some i
                 \<and> jobs st' = (jobs st)[i := \<lparr>pid = p, jid = f, state = s, cmdline = c\<rparr>]
                 \<and> smallest_unused f (live_jids (jobs st))))"
proof (intro conjI allI impI)
  have inv0: "table_inv (jobs st0)" using assms(1,2) by (simp add: table_inv_init)
  from run_ops_inv[OF inv0 assms(3)] have inv: "table_inv (jobs st)" .
  then show "distinct (live_jids (jobs st))" by (simp add: table_inv_def)
  have "live_pids (jobs st0) = []"
    using assms(2) by (simp add: live_pids_def initjobs_def clearjob_def filter_empty_conv)
  then have d0: "distinct (live_pids (jobs st0))" by simp
  show "distinct (live_pids (jobs st))" if "fresh_pids ops st0"
    using run_ops_pids[OF d0 that assms(3)] .
  fix p s c st' assume a: "addjob p s c st = Some (1, st')"
  from addjob_cases[OF a] obtain i f where h: "1 \<le> p"
    "first_index (\<lambda>j. pid j = 0) (jobs st) = Some i" "freejid (jobs st) = Some f" "f \<noteq> 0"
    "jobs st' = (jobs st)[i := \<lparr>pid = p, jid = f, state = s, cmdline = c\<rparr>]" by auto
  from table_inv_register(2)[OF inv h(2,3,4,1)] h(2,5)
  show "\<exists>i f. first_index (\<lambda>j. pid j = 0) (jobs st) = Some i
                 \<and> jobs st' = (jobs st)[i := \<lparr>pid = p, jid = f, state = s, cmdline = c\<rparr>]
                 \<and> smallest_unused f (live_jids (jobs st))" by blast
qed

theorem job_ids_smallest_and_unique_witness:
  "length (replicate MAXJOBS \<lparr>pid = 0, jid = 0, state = 0, cmdline = []\<rparr>) = MAXJOBS
   \<and> jobs boot = initjobs (replicate MAXJOBS \<lparr>pid = 0, jid = 0, state = 0, cmdline = []\<rparr>)
   \<and> run_ops [Register 5 BG ''a &\<newline>'', Register 6 BG ''b &\<newline>'', Remove 5, Register 7 ST ''c\<newline>''] boot
       = Some (started 7 ST ''c\<newline>'' (delete_in 5 (started 6 BG ''b &\<newline>'' (started 5 BG ''a &\<newline>'' boot))))
   \<and> fresh_pids [Register 5 BG ''a &\<newline>'', Register 6 BG ''b &\<newline>'', Remove 5, Register 7 ST ''c\<newline>''] boot
   \<and> live_jids (jobs (started 7 ST ''c\<newline>'' (delete_in 5 (started 6 BG ''b &\<newline>'' (started 5 BG ''a &\<newline>'' boot))))) = [1, 2]
   \<and> live_pids (jobs (started 7 ST ''c\<newline>'' (delete_in 5 (started 6 BG ''b &\<newline>'' (started 5 BG ''a &\<newline>'' boot))))) = [7, 6]
   \<and> distinct (live_jids (jobs (started 7 ST ''c\<newline>'' (delete_in 5 (started 6 BG ''b &\<newline>'' (started 5 BG ''a &\<newline>'' boot))))))
   \<and> distinct (live_pids (jobs (started 7 ST ''c\<newline>'' (delete_in 5 (started 6 BG ''b &\<newline>'' (started 5 BG ''a &\<newline>'' boot))))))
   \<and> addjob 8 BG ''d &\<newline>'' (started 7 ST ''c\<newline>'' (delete_in 5 (started 6 BG ''b &\<newline>'' (started 5 BG ''a &\<newline>'' boot))))
       = Some (1, started 8 BG ''d &\<newline>'' (started 7 ST ''c\<newline>'' (delete_in 5 (started 6 BG ''b &\<newline>'' (started 5 BG ''a &\<newline>'' boot)))))
   \<and> pid2jid (jobs (started 8 BG ''d &\<newline>'' (started 7 ST ''c\<newline>'' (delete_in 5 (started 6 BG ''b &\<newline>'' (started 5 BG ''a &\<newline>'' boot)))))) 8 = 3
   \<and> smallest_unused 3 (live_jids (jobs (started 7 ST ''c\<newline>'' (delete_in 5 (started 6 BG ''b &\<newline>'' (started 5 BG ''a &\<newline>'' boot))))))"
proof -
  let ?arr = "replicate MAXJOBS \<lparr>pid = 0, jid = 0, state = 0, cmdline = []\<rparr>"
  let ?ops = "[Register 5 BG ''a &\<newline>'', Register 6 BG ''b &\<newline>'', Remove 5, Register 7 ST ''c\<newline>'']"
  let ?st = "started 7 ST ''c\<newline>'' (delete_in 5 (started 6 BG ''b &\<newline>'' (started 5 BG ''a &\<newline>'' boot)))"
  let ?st' = "started 8 BG ''d &\<newline>'' ?st"
  have a: "length ?arr = MAXJOBS" by simp
  have b: "jobs boot = initjobs ?arr" by (simp add: boot_def)
  have c: "run_ops ?ops boot = Some ?st" by code_simp
  have d: "fresh_pids ?ops boot" by code_simp
  have e: "addjob 8 BG ''d &\<newline>'' ?st = Some (1, ?st')" by code_simp
  have f: "live_jids (jobs ?st) = [1, 2]" "live_pids (jobs ?st) = [7, 6]"
    "pid2jid (jobs ?st') 8 = 3" by code_simp+
  have g: "first_index (\<lambda>j. pid j = 0) (jobs ?st) = Some 2" by code_simp
  have h: "jid (jobs ?st' ! 2) = 3" by code_simp
  note t = job_ids_smallest_and_unique[OF a b c]
  from t d have 1: "distinct (live_jids (jobs ?st))" "distinct (live_pids (jobs ?st))" by blast+
  from t e obtain i k where ik: "first_index (\<lambda>j. pid j = 0) (jobs ?st) = Some i"
    "jobs ?st' = (jobs ?st)[i := \<lparr>pid = 8, jid = k, state = BG, cmdline = ''d &\<newline>''\<rparr>]"
    "smallest_unused k (live_jids (jobs ?st))" by blast
  from ik(1) g have "i = 2" by simp
  moreover have "2 < length (jobs ?st)" by code_simp
  ultimately have "jid (jobs ?st' ! 2) = k" using ik(2) by simp
  with h have "k = 3" by simp
  with ik(3) have 2: "smallest_unused 3 (live_jids (jobs ?st))" by simp
  show ?thesis using a b c d e f 1 2 by simp
qed

text \<open>
  Claim C1 as stated fails in its last part: \<open>addjob\<close> does not look for the pid in the
  table, so registering pid 5 twice succeeds twice and leaves two live jobs with pid 5
  (their job ids, 1 and 2, differ).
\<close>

theorem same_pid_registered_twice:
  "run_ops [Register 5 BG ''a &\<newline>'', Register 5 BG ''b &\<newline>''] boot
     = Some (started 5 BG ''b &\<newline>'' (started 5 BG ''a &\<newline>'' boot))
   \<and> addjob 5 BG ''a &\<newline>'' boot = Some (1, started 5 BG ''a &\<newline>'' boot)
   \<and> addjob 5 BG ''b &\<newline>'' (started 5 BG ''a &\<newline>'' boot)
       = Some (1, started 5 BG ''b &\<newline>'' (started 5 BG ''a &\<newline>'' boot))
   \<and> live_pids (jobs (started 5 BG ''b &\<newline>'' (started 5 BG ''a &\<newline>'' boot))) = [5, 5]
   \<and> live_jids (jobs (started 5 BG ''b &\<newline>'' (started 5 BG ''a &\<newline>'' boot))) = [1, 2]
   \<and> \<not> distinct (live_pids (jobs (started 5 BG ''b &\<newline>'' (started 5 BG ''a &\<newline>'' boot))))"
  by code_simp


subsection \<open>Rejections of the bg and fg commands\<close>

lemma rejection_texts_differ:
  fixes c1 c2 a :: string
  shows "c1 @ '' command requires PID or %jobid argument\<newline>'' \<noteq> c2 @ '': argument must be a positive integer\<newline>''"
    and "c1 @ '' command requires PID or %jobid argument\<newline>'' \<noteq> c2 @ '': argument must be a PID or %jobid\<newline>''"
    and "c1 @ '' command requires PID or %jobid argument\<newline>'' \<noteq> a @ '': No such job\<newline>''"
    and "c1 @ '' command requires PID or %jobid argument\<newline>'' \<noteq> ''('' @ fmt_d q @ ''): No such process\<newline>''"
    and "c2 @ '': argument must be a positive integer\<newline>'' \<noteq> a @ '': No such job\<newline>''"
    and "c2 @ '': argument must be a positive integer\<newline>'' \<noteq> ''('' @ fmt_d q @ ''): No such process\<newline>''"
    and "c2 @ '': argument must be a PID or %jobid\<newline>'' \<noteq> a @ '': No such job\<newline>''"
    and "c2 @ '': argument must be a PID or %jobid\<newline>'' \<noteq> ''('' @ fmt_d q @ ''): No such process\<newline>''"
proof -
  have r: "x \<noteq> y" if "rev x \<noteq> rev y" for x y :: string using that by auto
  show "c1 @ '' command requires PID or %jobid argument\<newline>'' \<noteq> c2 @ '': argument must be a positive integer\<newline>''"
    by (rule r) simp
  show "c1 @ '' command requires PID or %jobid argument\<newline>'' \<noteq> c2 @ '': argument must be a PID or %jobid\<newline>''"
    by (rule r) simp
  show "c1 @ '' command requires PID or %jobid argument\<newline>'' \<noteq> a @ '': No such job\<newline>''"
    by (rule r) simp
  show "c1 @ '' command requires PID or %jobid argument\<newline>'' \<noteq> ''('' @ fmt_d q @ ''): No such process\<newline>''"
    by (rule r) simp
  show "c2 @ '': argument must be a positive integer\<newline>'' \<noteq> a @ '': No such job\<newline>''"
    by (rule r) simp
  show "c2 @ '': argument must be a positive integer\<newline>'' \<noteq> ''('' @ fmt_d q @ ''): No such process\<newline>''"
    by (rule r) simp
  show "c2 @ '': argument must be a PID or %jobid\<newline>'' \<noteq> a @ '': No such job\<newline>''"
    by (rule r) simp
  show "c2 @ '': argument must be a PID or %jobid\<newline>'' \<noteq> ''('' @ fmt_d q @ ''): No such process\<newline>''"
    by (rule r) simp
qed

text \<open>
  Claim C5, amended. For every argument vector \<open>do_bgfg\<close> is given: when \<open>argv[1]\<close> is
  missing, when the number \<open>atoi\<close> reads from the argument (after the \<open>%\<close>, or from the
  bare argument) is not positive, and when that number is positive but \<open>getjobjid\<close> or
  \<open>getjobpid\<close> finds no slot, \<open>do_bgfg\<close> returns after one \<open>printf\<close> and nothing else:
  the job table and every other part of the state but the output are unchanged. The text
  printed for a missing argument differs from the texts for an invalid one, and both
  differ from the texts for a reference that is not found, whatever the command name, the
  argument and the pid in them.
\<close>

theorem do_bgfg_rejections:
  fixes cmd arg :: string
  shows
  "do_bgfg [cmd] sy st
     = Return () (printf (cmd @ '' command requires PID or %jobid argument\<newline>'') st)
   \<and> (arg \<noteq> [] \<and> hd arg = CHR ''%'' \<and> atoi (tl arg) \<le> 0 \<longrightarrow>
        do_bgfg (cmd # arg # others) sy st
          = Return () (printf (cmd @ '': argument must be a positive integer\<newline>'') st))
   \<and> (\<not> (arg \<noteq> [] \<and> hd arg = CHR ''%'') \<and> atoi arg \<le> 0 \<longrightarrow>
        do_bgfg (cmd # arg # others) sy st
          = Return () (printf (cmd @ '': argument must be a PID or %jobid\<newline>'') st))
   \<and> (arg \<noteq> [] \<and> hd arg = CHR ''%'' \<and> 0 < atoi (tl arg)
        \<and> getjobjid (jobs st) (atoi (tl arg)) = None \<longrightarrow>
        do_bgfg (cmd # arg # others) sy st = Return () (printf (arg @ '': No such job\<newline>'') st))
   \<and> (\<not> (arg \<noteq> [] \<and> hd arg = CHR ''%'') \<and> 0 < atoi arg
        \<and> getjobpid (jobs st) (atoi arg) = None \<longrightarrow>
        do_bgfg (cmd # arg # others) sy st
          = Return () (printf (''('' @ fmt_d (atoi arg) @ ''): No such process\<newline>'') st))
   \<and> printf m st = st\<lparr>out := out st @ [m]\<rparr> \<and> jobs (printf m st) = jobs st
   \<and> (\<forall>c1 c2 a q.
        c1 @ '' command requires PID or %jobid argument\<newline>''
          \<notin> {c2 @ '': argument must be a positive integer\<newline>'',
              c2 @ '': argument must be a PID or %jobid\<newline>'',
              a @ '': No such job\<newline>'', ''('' @ fmt_d q @ ''): No such process\<newline>''}
        \<and> {c2 @ '': argument must be a positive integer\<newline>'',
            c2 @ '': argument must be a PID or %jobid\<newline>''}
          \<inter> {a @ '': No such job\<newline>'', ''('' @ fmt_d q @ ''): No such process\<newline>''} = {})"
proof (intro conjI impI allI)
  show "do_bgfg [cmd] sy st
     = Return () (printf (cmd @ '' command requires PID or %jobid argument\<newline>'') st)"
    by (simp add: do_bgfg_def do_bgfg_resolve_def)
  show "do_bgfg (cmd # arg # others) sy st
          = Return () (printf (cmd @ '': argument must be a positive integer\<newline>'') st)"
    if "arg \<noteq> [] \<and> hd arg = CHR ''%'' \<and> atoi (tl arg) \<le> 0"
    using that by (simp add: do_bgfg_def do_bgfg_resolve_def Let_def)
  show "do_bgfg (cmd # arg # others) sy st
          = Return () (printf (cmd @ '': argument must be a PID or %jobid\<newline>'') st)"
    if "\<not> (arg \<noteq> [] \<and> hd arg = CHR ''%'') \<and> atoi arg \<le> 0"
    using that by (auto simp add: do_bgfg_def do_bgfg_resolve_def Let_def)
  show "do_bgfg (cmd # arg # others) sy st = Return () (printf (arg @ '': No such job\<newline>'') st)"
    if "arg \<noteq> [] \<and> hd arg = CHR ''%'' \<and> 0 < atoi (tl arg)
        \<and> getjobjid (jobs st) (atoi (tl arg)) = None"
    using that by (simp add: do_bgfg_def do_bgfg_resolve_def Let_def)
  show "do_bgfg (cmd # arg # others) sy st
          = Return () (printf (''('' @ fmt_d (atoi arg) @ ''): No such process\<newline>'') st)"
    if "\<not> (arg \<noteq> [] \<and> hd arg = CHR ''%'') \<and> 0 < atoi arg
        \<and> getjobpid (jobs st) (atoi arg) = None"
    using that by (auto simp add: do_bgfg_def do_bgfg_resolve_def Let_def)
  show "printf m st = st\<lparr>out := out st @ [m]\<rparr>" by (simp add: printf_def)
  show "jobs (printf m st) = jobs st" by (simp add: printf_def)
  fix c1 c2 a :: string and q :: int
  show "c1 @ '' command requires PID or %jobid argument\<newline>''
          \<notin> {c2 @ '': argument must be a positive integer\<newline>'',
              c2 @ '': argument must be a PID or %jobid\<newline>'',
              a @ '': No such job\<newline>'', ''('' @ fmt_d q @ ''): No such process\<newline>''}"
    using rejection_texts_differ(1,2)[of c1 c2] rejection_texts_differ(3)[of c1 a]
      rejection_texts_differ(4)[of c1 q] by blast
  show "{c2 @ '': argument must be a positive integer\<newline>'',
            c2 @ '': argument must be a PID or %jobid\<newline>''}
          \<inter> {a @ '': No such job\<newline>'', ''('' @ fmt_d q @ ''): No such process\<newline>''} = {}"
    using rejection_texts_differ(5,7)[of c2 a] rejection_texts_differ(6,8)[of c2 q] by blast
qed


theorem do_bgfg_rejections_witness:
  "do_bgfg [''fg''] \<lparr>fork_ret = 0, kill_ret = 0, waitpid_rets = [], strerror_errno = []\<rparr>
       (started 5 ST ''vi\<newline>'' boot)
     = Return () (printf ''fg command requires PID or %jobid argument\<newline>'' (started 5 ST ''vi\<newline>'' boot))
   \<and> atoi (tl ''%abc'') = 0
   \<and> do_bgfg [''fg'', ''%abc''] \<lparr>fork_ret = 0, kill_ret = 0, waitpid_rets = [], strerror_errno = []\<rparr>
       (started 5 ST ''vi\<newline>'' boot)
     = Return () (printf ''fg: argument must be a positive integer\<newline>'' (started 5 ST ''vi\<newline>'' boot))
   \<and> atoi ''-5'' = - 5
   \<and> do_bgfg [''bg'', ''-5''] \<lparr>fork_ret = 0, kill_ret = 0, waitpid_rets = [], strerror_errno = []\<rparr>
       (started 5 ST ''vi\<newline>'' boot)
     = Return () (printf ''bg: argument must be a PID or %jobid\<newline>'' (started 5 ST ''vi\<newline>'' boot))
   \<and> atoi (tl ''%2'') = 2 \<and> getjobjid (jobs (started 5 ST ''vi\<newline>'' boot)) 2 = None
   \<and> do_bgfg [''fg'', ''%2''] \<lparr>fork_ret = 0, kill_ret = 0, waitpid_rets = [], strerror_errno = []\<rparr>
       (started 5 ST ''vi\<newline>'' boot)
     = Return () (printf ''%2: No such job\<newline>'' (started 5 ST ''vi\<newline>'' boot))
   \<and> atoi ''6'' = 6 \<and> getjobpid (jobs (started 5 ST ''vi\<newline>'' boot)) 6 = None
   \<and> do_bgfg [''bg'', ''6''] \<lparr>fork_ret = 0, kill_ret = 0, waitpid_rets = [], strerror_errno = []\<rparr>
       (started 5 ST ''vi\<newline>'' boot)
     = Return () (printf ''(6): No such process\<newline>'' (started 5 ST ''vi\<newline>'' boot))
   \<and> jobs (printf ''(6): No such process\<newline>'' (started 5 ST ''vi\<newline>'' boot))
     = jobs (started 5 ST ''vi\<newline>'' boot)"
proof -
  let ?sy = "\<lparr>fork_ret = 0, kill_ret = 0, waitpid_rets = [], strerror_errno = []\<rparr>"
  let ?st = "started 5 ST ''vi\<newline>'' boot"
  have a: "atoi (tl ''%abc'') = 0" "atoi ''-5'' = - 5" "atoi (tl ''%2'') = 2"
    "atoi ''6'' = 6" by code_simp+
  have b: "getjobjid (jobs ?st) 2 = None" "getjobpid (jobs ?st) 6 = None" by code_simp+
  have d: "fmt_d 6 = ''6''" by code_simp
  note t1 = do_bgfg_rejections[of "''fg''" ?sy ?st "''%abc''" "[]" "[]"]
  note t2 = do_bgfg_rejections[of "''bg''" ?sy ?st "''-5''" "[]" "[]"]
  note t3 = do_bgfg_rejections[of "''fg''" ?sy ?st "''%2''" "[]" "[]"]
  note t4 = do_bgfg_rejections[of "''bg''" ?sy ?st "''6''" "[]" "''(6): No such process\<newline>''"]
  have 1: "do_bgfg [''fg''] ?sy ?st
     = Return () (printf ''fg command requires PID or %jobid argument\<newline>'' ?st)"
    using t1 by simp
  have 2: "do_bgfg [''fg'', ''%abc''] ?sy ?st
     = Return () (printf ''fg: argument must be a positive integer\<newline>'' ?st)"
    using t1 a(1) by simp
  have 3: "do_bgfg [''bg'', ''-5''] ?sy ?st
     = Return () (printf ''bg: argument must be a PID or %jobid\<newline>'' ?st)"
    using t2 a(2) by simp
  have 4: "do_bgfg [''fg'', ''%2''] ?sy ?st = Return () (printf ''%2: No such job\<newline>'' ?st)"
    using t3 a(3) b(1) by simp
  have 5: "do_bgfg [''bg'', ''6''] ?sy ?st = Return () (printf ''(6): No such process\<newline>'' ?st)"
    using t4 a(4) b(2) d by simp
  have 6: "jobs (printf ''(6): No such process\<newline>'' ?st) = jobs ?st"
    using t4 by blast
  show ?thesis using 1 2 3 4 5 6 a b by simp
qed

text \<open>
  Claim C5 as stated fails for an argument that is no positive integer but starts with
  one. With job 1 (pid 5) stopped, \<open>bg 5x\<close>, \<open>bg %1abc\<close> and \<open>bg 4294967301\<close> are each
  read as a reference to that job: no rejection is printed, \<open>SIGCONT\<close> is sent to the
  group of 5 and the slot goes from \<open>ST\<close> to \<open>BG\<close>.
\<close>

theorem do_bgfg_accepts_leading_numeral:
  "map pid (take 2 (jobs (started 5 ST ''vi\<newline>'' boot))) = [5, 0]
   \<and> map state (take 2 (jobs (started 5 ST ''vi\<newline>'' boot))) = [ST, UNDEF]
   \<and> atoi ''5x'' = 5 \<and> atoi ''1abc'' = 1 \<and> atoi ''4294967301'' = 5
   \<and> (case do_bgfg [''bg'', ''5x'']
             \<lparr>fork_ret = 0, kill_ret = 0, waitpid_rets = [], strerror_errno = []\<rparr>
             (started 5 ST ''vi\<newline>'' boot) of
         Return _ s \<Rightarrow>
           map state (take 2 (jobs s)) = [BG, UNDEF] \<and> kills s = [(- 5, SIGCONT)]
           \<and> out s = [''[1] (5) vi\<newline>''] \<and> jobs s \<noteq> jobs (started 5 ST ''vi\<newline>'' boot)
       | _ \<Rightarrow> False)
   \<and> (case do_bgfg [''bg'', ''%1abc'']
             \<lparr>fork_ret = 0, kill_ret = 0, waitpid_rets = [], strerror_errno = []\<rparr>
             (started 5 ST ''vi\<newline>'' boot) of
         Return _ s \<Rightarrow>
           map state (take 2 (jobs s)) = [BG, UNDEF] \<and> kills s = [(- 5, SIGCONT)]
           \<and> out s = [''[1] (5) vi\<newline>''] \<and> jobs s \<noteq> jobs (started 5 ST ''vi\<newline>'' boot)
       | _ \<Rightarrow> False)
   \<and> (case do_bgfg [''bg'', ''4294967301'']
             \<lparr>fork_ret = 0, kill_ret = 0, waitpid_rets = [], strerror_errno = []\<rparr>
             (started 5 ST ''vi\<newline>'' boot) of
         Return _ s \<Rightarrow>
           map state (take 2 (jobs s)) = [BG, UNDEF] \<and> kills s = [(- 5, SIGCONT)]
           \<and> out s = [''[1] (5) vi\<newline>''] \<and> jobs s \<noteq> jobs (started 5 ST ''vi\<newline>'' boot)
       | _ \<Rightarrow> False)"
  by code_simp


subsection \<open>The interrupt relay\<close>

text \<open>
  Claim C7, amended. \<open>sigint_handler\<close> leaves the job table as it is, whatever the
  table: when \<open>fgpid\<close> is not 0 the one thing it does is the call
  \<open>kill(-fg_pid, SIGINT)\<close>, and when \<open>fgpid\<close> is 0 it does nothing at all. On a table
  with at most one slot in state \<open>FG\<close>, when a foreground job exists (a slot in state
  \<open>FG\<close> that holds a positive pid, as every registered job does) the target of that call
  is the negated pid of that job, a negative number: the process group of the job, not
  its leader alone.
\<close>

theorem sigint_handler_frame:
  "jobs (sigint_handler st) = jobs st
   \<and> (fgpid (jobs st) \<noteq> 0
        \<longrightarrow> sigint_handler st = st\<lparr>kills := kills st @ [(- fgpid (jobs st), SIGINT)]\<rparr>)
   \<and> (fgpid (jobs st) = 0 \<longrightarrow> sigint_handler st = st)
   \<and> (length (filter (\<lambda>j. state j = FG) (jobs st)) \<le> 1 \<longrightarrow>
        (\<forall>j\<in>set (jobs st). state j = FG \<and> 0 < pid j \<longrightarrow>
           sigint_handler st = st\<lparr>kills := kills st @ [(- pid j, SIGINT)]\<rparr> \<and> - pid j < 0))"
proof (intro conjI impI ballI)
  show "jobs (sigint_handler st) = jobs st"
    by (simp add: sigint_handler_def kill_def Let_def)
  show "sigint_handler st = st\<lparr>kills := kills st @ [(- fgpid (jobs st), SIGINT)]\<rparr>"
    if "fgpid (jobs st) \<noteq> 0"
    using that by (simp add: sigint_handler_def kill_def Let_def)
  show "sigint_handler st = st" if "fgpid (jobs st) = 0"
    using that by (simp add: sigint_handler_def Let_def)
next
  fix j
  assume one: "length (filter (\<lambda>j. state j = FG) (jobs st)) \<le> 1"
    and j: "j \<in> set (jobs st)" and fg: "state j = FG \<and> 0 < pid j"
  from first_index_only[of "\<lambda>j. state j = FG" "jobs st" j, OF one j] fg
  obtain i where "first_index (\<lambda>j. state j = FG) (jobs st) = Some i" "jobs st ! i = j"
    by blast
  then have "fgpid (jobs st) = pid j" by (simp add: fgpid_def)
  with fg show "sigint_handler st = st\<lparr>kills := kills st @ [(- pid j, SIGINT)]\<rparr>"
    by (simp add: sigint_handler_def kill_def Let_def)
  from fg show "- pid j < 0" by simp
qed

theorem sigint_handler_frame_witness:
  "length (filter (\<lambda>j. state j = FG) (jobs (started 6 FG ''cat\<newline>'' (started 5 ST ''vi\<newline>'' boot)))) \<le> 1
   \<and> jobs (started 6 FG ''cat\<newline>'' (started 5 ST ''vi\<newline>'' boot)) ! 1
       = \<lparr>pid = 6, jid = 2, state = FG, cmdline = ''cat\<newline>''\<rparr>
   \<and> jobs (sigint_handler (started 6 FG ''cat\<newline>'' (started 5 ST ''vi\<newline>'' boot)))
       = jobs (started 6 FG ''cat\<newline>'' (started 5 ST ''vi\<newline>'' boot))
   \<and> kills (sigint_handler (started 6 FG ''cat\<newline>'' (started 5 ST ''vi\<newline>'' boot))) = [(- 6, SIGINT)]
   \<and> fgpid (jobs boot) = 0 \<and> sigint_handler boot = boot"
proof -
  let ?st = "started 6 FG ''cat\<newline>'' (started 5 ST ''vi\<newline>'' boot)"
  let ?j = "\<lparr>pid = 6, jid = 2, state = FG, cmdline = ''cat\<newline>''\<rparr>"
  have a: "length (filter (\<lambda>j. state j = FG) (jobs ?st)) \<le> 1" by code_simp
  have b: "jobs ?st ! 1 = ?j" by code_simp
  have l: "1 < length (jobs ?st)" by code_simp
  have d: "kills ?st = []" by code_simp
  have e: "fgpid (jobs boot) = 0" by code_simp
  from nth_mem[OF l] b have m: "?j \<in> set (jobs ?st)" by simp
  have fg: "state ?j = FG \<and> 0 < pid ?j" by (simp add: FG_def)
  note t = sigint_handler_frame[of ?st]
  from t have 1: "jobs (sigint_handler ?st) = jobs ?st" by (rule conjunct1)
  from t[THEN conjunct2, THEN conjunct2, THEN conjunct2, rule_format, OF a m fg]
  have "sigint_handler ?st = ?st\<lparr>kills := kills ?st @ [(- pid ?j, SIGINT)]\<rparr>" by (rule conjunct1)
  then have "kills (sigint_handler ?st) = kills ?st @ [(- pid ?j, SIGINT)]" by simp
  with d have 2: "kills (sigint_handler ?st) = [(- 6, SIGINT)]" by simp
  from sigint_handler_frame[of boot, THEN conjunct2, THEN conjunct2, THEN conjunct1, rule_format, OF e]
  have 3: "sigint_handler boot = boot" .
  from a b 1 2 e 3 show ?thesis by (intro conjI)
qed

text \<open>
  Claim C7 as stated (for every table) fails where a slot in state \<open>FG\<close> that holds no
  job comes before the foreground job. A \<open>SIGCHLD\<close> handled inside \<open>fg %1\<close> leaves
  slot 0 cleared and in state \<open>FG\<close>; after \<open>fg %2\<close> the shell waits in \<open>waitfg(6)\<close>
  for the job in slot 1, \<open>fgpid\<close> returns the pid 0 of slot 0, and \<open>sigint_handler\<close>
  sends nothing.
\<close>

theorem sigint_handler_misses_foreground_job:
  "(case eval ''sleep 100\<newline>'' \<lparr>fork_ret = 5, kill_ret = 0, waitpid_rets = [], strerror_errno = []\<rparr> boot of
      Return _ s1 \<Rightarrow>
       (case eval ''sleep 200\<newline>'' \<lparr>fork_ret = 6, kill_ret = 0, waitpid_rets = [], strerror_errno = []\<rparr> s1 of
          Return _ s2 \<Rightarrow>
           (case do_bgfg_interleaved [''fg'', ''%1'']
                   \<lparr>fork_ret = 0, kill_ret = 0, waitpid_rets = [], strerror_errno = []\<rparr>
                   (sigchld_handler [(5, Exited 0)]) s2 of
              Return _ s3 \<Rightarrow>
               (case do_bgfg [''fg'', ''%2'']
                       \<lparr>fork_ret = 0, kill_ret = 0, waitpid_rets = [], strerror_errno = []\<rparr> s3 of
                  Blocked p s4 \<Rightarrow>
                    p = 6 \<and> pid (jobs s4 ! 1) = 6 \<and> jid (jobs s4 ! 1) = 2
                    \<and> state (jobs s4 ! 1) = FG
                    \<and> pid (jobs s4 ! 0) = 0 \<and> state (jobs s4 ! 0) = FG
                    \<and> fgpid (jobs s4) = 0
                    \<and> kills s4 = [(- 5, SIGCONT), (- 6, SIGCONT)]
                    \<and> kills (sigint_handler s4) = [(- 5, SIGCONT), (- 6, SIGCONT)]
                | _ \<Rightarrow> False)
            | _ \<Rightarrow> False)
        | _ \<Rightarrow> False)
    | _ \<Rightarrow> False)"
  by code_simp

subsection \<open>The stop relay\<close>

lemma sigtstp_jobs:
  "jobs (sigtstp_handler st) =
     (case first_index (\<lambda>j. state j = FG) (jobs st) of
        None \<Rightarrow> jobs st
      | Some f \<Rightarrow>
          (case getjobpid (jobs st) (pid (jobs st ! f)) of
             None \<Rightarrow> jobs st
           | Some k \<Rightarrow> (jobs st)[k := (jobs st ! k)\<lparr>state := ST\<rparr>]))"
  by (auto simp: sigtstp_handler_def fgpid_def kill_def set_state_def Let_def getjobpid_def
      split: option.splits)

text \<open>
  Claim C6, amended. On a table with at most one slot in state \<open>FG\<close>, running
  \<open>sigtstp_handler\<close> a second time leaves the table as the first run left it.
\<close>

theorem sigtstp_handler_idempotent:
  assumes "length (filter (\<lambda>j. state j = FG) (jobs st)) \<le> 1"
  shows "jobs (sigtstp_handler (sigtstp_handler st)) = jobs (sigtstp_handler st)"
proof -
  define st' where "st' = sigtstp_handler st"
  have again: "jobs (sigtstp_handler st') =
     (case first_index (\<lambda>j. state j = FG) (jobs st') of
        None \<Rightarrow> jobs st'
      | Some f \<Rightarrow>
          (case getjobpid (jobs st') (pid (jobs st' ! f)) of
             None \<Rightarrow> jobs st'
           | Some k \<Rightarrow> (jobs st')[k := (jobs st' ! k)\<lparr>state := ST\<rparr>]))"
    by (rule sigtstp_jobs)
  have once: "jobs st' =
     (case first_index (\<lambda>j. state j = FG) (jobs st) of
        None \<Rightarrow> jobs st
      | Some f \<Rightarrow>
          (case getjobpid (jobs st) (pid (jobs st ! f)) of
             None \<Rightarrow> jobs st
           | Some k \<Rightarrow> (jobs st)[k := (jobs st ! k)\<lparr>state := ST\<rparr>]))"
    unfolding st'_def by (rule sigtstp_jobs)
  have "jobs (sigtstp_handler st') = jobs st'"
  proof (cases "first_index (\<lambda>j. state j = FG) (jobs st)")
    case None
    then show ?thesis using once again by simp
  next
    case (Some f)
    note f = first_index_Some[OF Some]
    show ?thesis
    proof (cases "getjobpid (jobs st) (pid (jobs st ! f))")
      case None
      with Some show ?thesis using once again by simp
    next
      case k: (Some k)
      then have pos: "\<not> pid (jobs st ! f) < 1"
        and kk: "first_index (\<lambda>j. pid j = pid (jobs st ! f)) (jobs st) = Some k"
        by (auto simp: getjobpid_def split: if_splits)
      note kp = first_index_Some[OF kk]
      let ?js' = "(jobs st)[k := (jobs st ! k)\<lparr>state := ST\<rparr>]"
      have js': "jobs st' = ?js'" using Some k once by simp
      show ?thesis
      proof (cases "k = f")
        case True
        have "first_index (\<lambda>j. state j = FG) ?js' = None"
          using first_index_update_only[OF Some assms, of "(jobs st ! k)\<lparr>state := ST\<rparr>"] True
          by (simp add: ST_def FG_def)
        then show ?thesis using again by (simp add: js')
      next
        case False
        with kp f have "k < f" by (metis linorder_neqE_nat)
        with f have nfg: "state (jobs st ! k) \<noteq> FG" by blast
        have fi: "first_index (\<lambda>j. state j = FG) ?js' = Some f"
          using kp nfg Some
            first_index_update_same[of k "jobs st" "\<lambda>j. state j = FG" "(jobs st ! k)\<lparr>state := ST\<rparr>"]
          by (simp add: ST_def FG_def)
        have pf: "pid (?js' ! f) = pid (jobs st ! f)" using False f by simp
        have pi: "first_index (\<lambda>j. pid j = pid (jobs st ! f)) ?js' = Some k"
          using kp kk
            first_index_update_same[of k "jobs st" "\<lambda>j. pid j = pid (jobs st ! f)" "(jobs st ! k)\<lparr>state := ST\<rparr>"]
          by simp
        have "getjobpid ?js' (pid (?js' ! f)) = Some k"
          using pos pi pf by (simp add: getjobpid_def)
        then show ?thesis using again kp by (simp add: js' fi)
      qed
    qed
  qed
  then show ?thesis by (simp add: st'_def)
qed


theorem sigtstp_handler_idempotent_witness:
  "length (filter (\<lambda>j. state j = FG) (jobs (started 5 FG ''vi\<newline>'' boot))) \<le> 1
   \<and> jobs (sigtstp_handler (sigtstp_handler (started 5 FG ''vi\<newline>'' boot)))
       = jobs (sigtstp_handler (started 5 FG ''vi\<newline>'' boot))
   \<and> state (jobs (sigtstp_handler (started 5 FG ''vi\<newline>'' boot)) ! 0) = ST"
proof -
  let ?st = "started 5 FG ''vi\<newline>'' boot"
  have a: "length (filter (\<lambda>j. state j = FG) (jobs ?st)) \<le> 1" by code_simp
  have b: "state (jobs (sigtstp_handler ?st) ! 0) = ST" by code_simp
  from sigtstp_handler_idempotent[OF a] a b show ?thesis by simp
qed

text \<open>
  Claim C6 as stated (for every table) fails on a table with two slots in state \<open>FG\<close>:
  the first run stops the first of them, the second run the other.
\<close>

theorem sigtstp_handler_twice_differs:
  "jobs (sigtstp_handler (sigtstp_handler (started 6 FG ''cat\<newline>'' (started 5 FG ''vi\<newline>'' boot))))
   \<noteq> jobs (sigtstp_handler (started 6 FG ''cat\<newline>'' (started 5 FG ''vi\<newline>'' boot)))"
  by code_simp



subsection \<open>The child-status-change handler\<close>

lemma sigprocmask_printf:
  "sigprocmask c (printf m st) = (fst (sigprocmask c st), printf m (snd (sigprocmask c st)))"
  by (cases c) (simp_all add: printf_def)

lemma printf_sigprocmask_jobs [simp]: "jobs (snd (sigprocmask c st)) = jobs st"
  by (cases c) simp_all

lemma sigchld_reap_frame:
  "sigcalls (sigchld_reap p w st) = sigcalls st \<and> blocked (sigchld_reap p w st) = blocked st"
  by (simp add: sigchld_reap_def printf_def delete_in_def set_state_def Let_def
      split: option.splits wstatus.splits)

lemma sigchld_loop_frame:
  "sigcalls (sigchld_loop ws st) = sigcalls st \<and> blocked (sigchld_loop ws st) = blocked st"
  by (induction ws st rule: sigchld_loop.induct) (simp_all add: sigchld_reap_frame)

text \<open>
  Claim C9. When \<open>waitpid\<close> reports a pid \<open>p > 0\<close> that no slot holds, the handler
  prints \<open>sigchld_handler: No job found for PID p\<close>, leaves the table as it is for that
  pid, and goes on with the remaining reports exactly as if it had started on them.
  (The handler is a total function into states: it has no undefined or exiting branch.)
\<close>

theorem sigchld_unknown_pid_skipped:
  assumes "0 < p" and "getjobpid (jobs st) p = None"
  shows "sigchld_handler ((p, status) # rest) st
         = sigchld_handler rest
             (printf (''sigchld_handler: No job found for PID '' @ fmt_d p @ ''\<newline>'') st)
       \<and> jobs (sigchld_reap p status st) = jobs st"
proof
  show "sigchld_handler ((p, status) # rest) st
         = sigchld_handler rest
             (printf (''sigchld_handler: No job found for PID '' @ fmt_d p @ ''\<newline>'') st)"
    using assms
    by (simp add: sigchld_handler_def sigchld_reap_def sigprocmask_printf split_def Let_def)
  show "jobs (sigchld_reap p status st) = jobs st"
    using assms by (simp add: sigchld_reap_def printf_def)
qed

theorem sigchld_unknown_pid_skipped_witness:
  "0 < (7::int) \<and> getjobpid (jobs (started 5 BG ''sleep 9 &\<newline>'' boot)) 7 = None
   \<and> sigchld_handler [(7, Exited 0), (5, Stopped 20)] (started 5 BG ''sleep 9 &\<newline>'' boot)
       = sigchld_handler [(5, Stopped 20)]
           (printf (''sigchld_handler: No job found for PID '' @ fmt_d 7 @ ''\<newline>'')
              (started 5 BG ''sleep 9 &\<newline>'' boot))
   \<and> jobs (sigchld_reap 7 (Exited 0) (started 5 BG ''sleep 9 &\<newline>'' boot))
       = jobs (started 5 BG ''sleep 9 &\<newline>'' boot)
   \<and> out (sigchld_handler [(7, Exited 0), (5, Stopped 20)] (started 5 BG ''sleep 9 &\<newline>'' boot))
       = [''sigchld_handler: No job found for PID 7\<newline>'', ''Job [1] (5) stopped by signal 20\<newline>'']
   \<and> state (jobs (sigchld_handler [(7, Exited 0), (5, Stopped 20)]
                 (started 5 BG ''sleep 9 &\<newline>'' boot)) ! 0) = ST"
proof -
  let ?st = "started 5 BG ''sleep 9 &\<newline>'' boot"
  have a: "0 < (7::int)" by simp
  have b: "getjobpid (jobs ?st) 7 = None" by code_simp
  have c: "out (sigchld_handler [(7, Exited 0), (5, Stopped 20)] ?st)
       = [''sigchld_handler: No job found for PID 7\<newline>'', ''Job [1] (5) stopped by signal 20\<newline>'']"
    by code_simp
  have d: "state (jobs (sigchld_handler [(7, Exited 0), (5, Stopped 20)] ?st) ! 0) = ST"
    by code_simp
  from sigchld_unknown_pid_skipped[OF a b, of "Exited 0" "[(5, Stopped 20)]"] a b c d
  show ?thesis by simp
qed

text \<open>What one pass of the loop does for a pid that has a job, status by status.\<close>

lemma deletejob_clears:
  assumes "getjobpid js p = Some i"
  shows "snd (deletejob js p) = js[i := clearjob (js ! i)]" and "i < length js"
    and "pid (js ! i) = p"
  using assms first_index_Some[of "\<lambda>j. pid j = p" js i]
  by (auto simp: getjobpid_def deletejob_def split: if_splits)

lemma sigchld_reap_found:
  assumes "getjobpid (jobs st) p = Some i"
  shows "sigchld_reap p (Exited code) st
           = printf (''Job [0] ('' @ fmt_d p @ '') exited with status '' @ fmt_d code @ ''\<newline>'')
               (delete_in p st)"
    and "sigchld_reap p (Signaled sg) st
           = delete_in p (printf (''Job ['' @ fmt_d (jid (jobs st ! i)) @ ''] ('' @ fmt_d p
                                  @ '') terminated by signal '' @ fmt_d sg @ ''\<newline>'') st)"
    and "sigchld_reap p (Stopped sg) st
           = printf (''Job ['' @ fmt_d (jid (jobs st ! i)) @ ''] ('' @ fmt_d p
                      @ '') stopped by signal '' @ fmt_d sg @ ''\<newline>'') (set_state i ST st)"
    and "sigchld_reap p Continued st
           = printf (''Job ['' @ fmt_d (jid (jobs st ! i)) @ ''] ('' @ fmt_d p
                      @ '') continued\<newline>'') (set_state i BG st)"
    and "jobs (delete_in p st) = (jobs st)[i := clearjob (jobs st ! i)]"
proof -
  note d = deletejob_clears[OF assms]
  have z: "fmt_d 0 = ''0''" by code_simp
  show "jobs (delete_in p st) = (jobs st)[i := clearjob (jobs st ! i)]"
    using d(1) by (simp add: delete_in_def)
  then have "jid (jobs (delete_in p st) ! i) = 0" using d(2) by (simp add: clearjob_def)
  then show "sigchld_reap p (Exited code) st
           = printf (''Job [0] ('' @ fmt_d p @ '') exited with status '' @ fmt_d code @ ''\<newline>'')
               (delete_in p st)"
    using assms by (simp add: sigchld_reap_def Let_def z)
  show "sigchld_reap p (Signaled sg) st
           = delete_in p (printf (''Job ['' @ fmt_d (jid (jobs st ! i)) @ ''] ('' @ fmt_d p
                                  @ '') terminated by signal '' @ fmt_d sg @ ''\<newline>'') st)"
    using assms by (simp add: sigchld_reap_def Let_def)
  have js: "jid (jobs (set_state i v st) ! i) = jid (jobs st ! i)" for v
    using d(2) by (simp add: set_state_def)
  have "sigchld_reap p (Stopped sg) st
         = printf (''Job ['' @ fmt_d (jid (jobs (set_state i ST st) ! i)) @ ''] ('' @ fmt_d p
                      @ '') stopped by signal '' @ fmt_d sg @ ''\<newline>'') (set_state i ST st)"
    using assms by (simp add: sigchld_reap_def Let_def)
  then show "sigchld_reap p (Stopped sg) st
           = printf (''Job ['' @ fmt_d (jid (jobs st ! i)) @ ''] ('' @ fmt_d p
                      @ '') stopped by signal '' @ fmt_d sg @ ''\<newline>'') (set_state i ST st)"
    unfolding js .
  have "sigchld_reap p Continued st
         = printf (''Job ['' @ fmt_d (jid (jobs (set_state i BG st) ! i)) @ ''] ('' @ fmt_d p
                      @ '') continued\<newline>'') (set_state i BG st)"
    using assms by (simp add: sigchld_reap_def Let_def)
  then show "sigchld_reap p Continued st
           = printf (''Job ['' @ fmt_d (jid (jobs st ! i)) @ ''] ('' @ fmt_d p
                      @ '') continued\<newline>'') (set_state i BG st)"
    unfolding js .
qed


text \<open>
  Claim C3 fails in the branch for a child that exited normally: \<open>deletejob\<close> runs before
  the \<open>printf\<close> that reads \<open>job->jid\<close>, so the notice for job 1 names job 0. The branch
  for a child killed by a signal prints first and names job 1.
\<close>

theorem sigchld_exit_notice_job_zero:
  "pid2jid (jobs (started 5 BG ''sleep 9 &\<newline>'' boot)) 5 = 1
   \<and> out (sigchld_handler [(5, Exited 3)] (started 5 BG ''sleep 9 &\<newline>'' boot))
       = [''Job [0] (5) exited with status 3\<newline>'']
   \<and> out (sigchld_handler [(5, Signaled 2)] (started 5 BG ''sleep 9 &\<newline>'' boot))
       = [''Job [1] (5) terminated by signal 2\<newline>'']"
  by code_simp

text \<open>
  Claim C8 holds of \<open>sigchld_handler\<close> only, which blocks every signal on entry and puts
  the previous mask back on exit. \<open>sigint_handler\<close> and \<open>sigtstp_handler\<close> never call
  \<open>sigprocmask\<close>: the mask they run under is the one they were entered with.
\<close>

theorem relay_handlers_leave_mask:
  "sigcalls (sigint_handler st) = sigcalls st \<and> blocked (sigint_handler st) = blocked st
   \<and> sigcalls (sigtstp_handler st) = sigcalls st \<and> blocked (sigtstp_handler st) = blocked st
   \<and> sigcalls (sigchld_handler reaped st) = sigcalls st @ [SIG_BLOCK UNIV, SIG_SETMASK (blocked st)]
   \<and> blocked (sigchld_handler reaped st) = blocked st"
  by (simp add: sigint_handler_def sigtstp_handler_def sigchld_handler_def kill_def set_state_def
      Let_def split_def sigchld_loop_frame split: option.splits)

subsection \<open>At most one foreground slot\<close>

lemma do_bgfg_uninterrupted: "do_bgfg_interleaved argv sy (\<lambda>st. st) st = do_bgfg argv sy st"
  by (simp add: do_bgfg_interleaved_def do_bgfg_def)

lemma parseline_flag:
  "parseline cmdl = Some (bg, argv) \<Longrightarrow> bg = int (length argv) \<and> (argv \<noteq> [] \<longrightarrow> bg \<noteq> 0)"
  by (auto simp: parseline_def Let_def split: if_splits)

text \<open>A store that changes one slot without making it foreground or giving it new ids.\<close>

lemma map_filter_update_same:
  assumes "i < length xs" and "P x = P (xs ! i)" and "f x = f (xs ! i)"
  shows "map f (filter P (xs[i := x])) = map f (filter P xs)"
proof -
  have "map f (filter P [x]) = map f (filter P [xs ! i])" using assms(2,3) by simp
  then show ?thesis
    using live_split(1)[OF assms(1), of P] live_split(2)[OF assms(1), of P x] by simp
qed

lemma fg_inv_restate:
  assumes inv: "fg_inv c js" and i: "i < length js" and v: "v \<noteq> FG"
  shows "fg_inv c (js[i := (js ! i)\<lparr>state := v\<rparr>])"
proof -
  let ?x = "(js ! i)\<lparr>state := v\<rparr>"
  let ?js = "js[i := ?x]"
  have lj: "live_jids ?js = live_jids js" unfolding live_jids_def
    using i by (intro map_filter_update_same) simp_all
  have lp: "live_pids ?js = live_pids js" unfolding live_pids_def
    using i by (intro map_filter_update_same) simp_all
  have mem: "\<exists>k\<in>set js. pid j = pid k \<and> jid j = jid k \<and> (state j = FG \<longrightarrow> state k = FG)"
    if "j \<in> set ?js" for j
  proof -
    from that have "j = ?x \<or> j \<in> set js" by (rule set_update_subset)
    then show ?thesis
    proof
      assume "j = ?x"
      then show ?thesis using i v nth_mem[OF i] by (intro bexI[of _ "js ! i"]) auto
    next
      assume "j \<in> set js" then show ?thesis by blast
    qed
  qed
  have ti: "table_inv ?js"
  proof -
    have "(pid j = 0 \<longrightarrow> jid j = 0) \<and> (pid j \<noteq> 0 \<longrightarrow> 1 \<le> jid j \<and> jid j \<le> int MAXJOBS)"
      if "j \<in> set ?js" for j
    proof -
      from mem[OF that] obtain k where k: "k \<in> set js" "pid j = pid k" "jid j = jid k" by blast
      from inv k(1) have "(pid k = 0 \<longrightarrow> jid k = 0) \<and> (pid k \<noteq> 0 \<longrightarrow> 1 \<le> jid k \<and> jid k \<le> int MAXJOBS)"
        by (simp add: fg_inv_def table_inv_def)
      with k show ?thesis by simp
    qed
    moreover from inv have "length js = MAXJOBS" "distinct (live_jids js)"
      by (simp_all add: fg_inv_def table_inv_def)
    ultimately show ?thesis by (simp add: table_inv_def lj)
  qed
  have nn: "\<forall>j\<in>set ?js. 0 \<le> pid j"
  proof
    fix j assume "j \<in> set ?js"
    from mem[OF this] obtain k where "k \<in> set js" "pid j = pid k" by blast
    with inv show "0 \<le> pid j" by (simp add: fg_inv_def)
  qed
  have fgp: "(case c of
            AtPrompt \<Rightarrow> \<forall>j\<in>set ?js. state j \<noteq> FG
          | InWaitfg p \<Rightarrow> 1 \<le> p \<and> (\<forall>j\<in>set ?js. state j = FG \<longrightarrow> pid j = p))"
  proof (cases c)
    case AtPrompt
    have "state j \<noteq> FG" if "j \<in> set ?js" for j
    proof
      assume f: "state j = FG"
      from mem[OF that] f obtain k where "k \<in> set js" "state k = FG" by blast
      with inv AtPrompt show False by (simp add: fg_inv_def)
    qed
    with AtPrompt show ?thesis by simp
  next
    case (InWaitfg p)
    have "pid j = p" if "j \<in> set ?js" "state j = FG" for j
    proof -
      from mem[OF that(1)] that(2) obtain k where k: "k \<in> set js" "state k = FG" "pid j = pid k"
        by blast
      with inv InWaitfg show ?thesis by (simp add: fg_inv_def)
    qed
    moreover from inv InWaitfg have "1 \<le> p" by (simp add: fg_inv_def)
    ultimately show ?thesis using InWaitfg by simp
  qed
  from inv have "distinct (live_pids js)" by (simp add: fg_inv_def)
  with ti nn fgp show ?thesis by (simp add: fg_inv_def lp)
qed


lemma fg_inv_delete:
  assumes inv: "fg_inv c js" shows "fg_inv c (snd (deletejob js p))"
proof (cases "getjobpid js p")
  case None
  then have "snd (deletejob js p) = js" by (auto simp: getjobpid_def deletejob_def split: if_splits)
  with inv show ?thesis by simp
next
  case (Some i)
  note d = deletejob_clears[OF Some]
  let ?js = "js[i := clearjob (js ! i)]"
  have ti: "table_inv (snd (deletejob js p))" using inv by (simp add: fg_inv_def table_inv_delete)
  have lp: "distinct (live_pids (snd (deletejob js p)))"
    using inv by (simp add: fg_inv_def live_pids_delete)
  have mem: "j \<in> set js \<or> (pid j = 0 \<and> state j = UNDEF)" if "j \<in> set ?js" for j
    using set_update_subset[OF that] by (auto simp: clearjob_def)
  have nn: "\<forall>j\<in>set ?js. 0 \<le> pid j"
  proof
    fix j assume "j \<in> set ?js"
    from mem[OF this] inv show "0 \<le> pid j" by (auto simp: fg_inv_def)
  qed
  have fgp: "(case c of
            AtPrompt \<Rightarrow> \<forall>j\<in>set ?js. state j \<noteq> FG
          | InWaitfg q \<Rightarrow> 1 \<le> q \<and> (\<forall>j\<in>set ?js. state j = FG \<longrightarrow> pid j = q))"
  proof (cases c)
    case AtPrompt
    have "state j \<noteq> FG" if "j \<in> set ?js" for j
      using mem[OF that] inv AtPrompt by (auto simp: fg_inv_def UNDEF_def FG_def)
    with AtPrompt show ?thesis by simp
  next
    case (InWaitfg q)
    have "pid j = q" if "j \<in> set ?js" "state j = FG" for j
      using mem[OF that(1)] that(2) inv InWaitfg by (auto simp: fg_inv_def UNDEF_def FG_def)
    moreover from inv InWaitfg have "1 \<le> q" by (simp add: fg_inv_def)
    ultimately show ?thesis using InWaitfg by simp
  qed
  show ?thesis using ti lp nn fgp unfolding d(1) by (simp add: fg_inv_def)
qed

lemma fg_inv_sigchld_reap:
  assumes inv: "fg_inv c (jobs st)" shows "fg_inv c (jobs (sigchld_reap p w st))"
proof (cases "getjobpid (jobs st) p")
  case None
  then show ?thesis using inv by (simp add: sigchld_reap_def printf_def)
next
  case (Some i)
  note r = sigchld_reap_found[OF Some]
  note d = deletejob_clears[OF Some]
  have del: "fg_inv c (jobs (delete_in p st))"
    using fg_inv_delete[OF inv, of p] by (simp add: delete_in_def)
  show ?thesis
  proof (cases w)
    case (Exited x1)
    then show ?thesis using del by (simp add: r(1) printf_def)
  next
    case (Signaled x2)
    then show ?thesis using del by (simp add: r(2) printf_def delete_in_def)
  next
    case (Stopped x3)
    then show ?thesis using fg_inv_restate[OF inv d(2), of ST]
      by (simp add: r(3) printf_def set_state_def ST_def FG_def)
  next
    case Continued
    then show ?thesis using fg_inv_restate[OF inv d(2), of BG]
      by (simp add: r(4) printf_def set_state_def BG_def FG_def)
  qed
qed

lemma fg_inv_sigchld_loop:
  "fg_inv c (jobs st) \<Longrightarrow> fg_inv c (jobs (sigchld_loop ws st))"
  by (induction ws st rule: sigchld_loop.induct) (simp_all add: fg_inv_sigchld_reap)

lemma fg_inv_sigchld_handler:
  "fg_inv c (jobs st) \<Longrightarrow> fg_inv c (jobs (sigchld_handler ws st))"
  using fg_inv_sigchld_loop[of c "snd (sigprocmask (SIG_BLOCK UNIV) st)" ws]
  by (simp add: sigchld_handler_def split_def Let_def)

lemma fg_inv_sigint: "fg_inv c (jobs st) \<Longrightarrow> fg_inv c (jobs (sigint_handler st))"
  by (simp add: sigint_handler_def kill_def Let_def)

lemma fg_inv_sigtstp:
  assumes inv: "fg_inv c (jobs st)" shows "fg_inv c (jobs (sigtstp_handler st))"
proof (cases "first_index (\<lambda>j. state j = FG) (jobs st)")
  case None
  then show ?thesis using inv by (simp add: sigtstp_jobs)
next
  case (Some f)
  show ?thesis
  proof (cases "getjobpid (jobs st) (pid (jobs st ! f))")
    case None
    with Some show ?thesis using inv by (simp add: sigtstp_jobs)
  next
    case k: (Some k)
    note d = deletejob_clears[OF k]
    from fg_inv_restate[OF inv d(2), of ST] Some k show ?thesis
      by (simp add: sigtstp_jobs ST_def FG_def)
  qed
qed


lemma live_pid_unique:
  "distinct (live_pids js) \<Longrightarrow> a < length js \<Longrightarrow> b < length js
   \<Longrightarrow> pid (js ! a) = pid (js ! b) \<Longrightarrow> pid (js ! a) \<noteq> 0 \<Longrightarrow> a = b"
proof (induction js arbitrary: a b)
  case Nil
  then show ?case by simp
next
  case (Cons x xs)
  have notin: "pid x \<notin> pid ` {j \<in> set xs. pid j \<noteq> 0}" if "pid x \<noteq> 0"
    using Cons.prems(1) that by (simp add: live_pids_def)
  have rest: "distinct (live_pids xs)" using Cons.prems(1) by (simp add: live_pids_def split: if_splits)
  show ?case
  proof (cases a)
    case 0
    show ?thesis
    proof (cases b)
      case 0
      with \<open>a = 0\<close> show ?thesis by simp
    next
      case (Suc b')
      with 0 Cons.prems have "pid x = pid (xs ! b')" "pid x \<noteq> 0" "b' < length xs" by simp_all
      then have "pid x \<in> pid ` {j \<in> set xs. pid j \<noteq> 0}" by (metis (mono_tags, lifting) image_eqI mem_Collect_eq nth_mem)
      with notin \<open>pid x \<noteq> 0\<close> show ?thesis by simp
    qed
  next
    case (Suc a')
    show ?thesis
    proof (cases b)
      case 0
      with Suc Cons.prems have "pid x = pid (xs ! a')" "pid x \<noteq> 0" "a' < length xs" by simp_all
      then have "pid x \<in> pid ` {j \<in> set xs. pid j \<noteq> 0}" by (metis (mono_tags, lifting) image_eqI mem_Collect_eq nth_mem)
      with notin \<open>pid x \<noteq> 0\<close> show ?thesis by simp
    next
      case (Suc b')
      with \<open>a = Suc a'\<close> Cons.prems Cons.IH[OF rest, of a' b'] show ?thesis by simp
    qed
  qed
qed

text \<open>
  While the shell waits for pid \<open>p\<close>, losing the slot found for \<open>p\<close> (stopped or
  cleared) leaves no slot in state \<open>FG\<close>.
\<close>

lemma fg_inv_leave:
  assumes inv: "fg_inv (InWaitfg p) js" and i: "getjobpid js p = Some i"
    and x: "state x \<noteq> FG" "x = clearjob (js ! i) \<or> x = (js ! i)\<lparr>state := v\<rparr>"
  shows "fg_inv AtPrompt (js[i := x])"
proof -
  note d = deletejob_clears[OF i]
  from inv have p: "1 \<le> p" and dp: "distinct (live_pids js)"
    and fgs: "\<forall>j\<in>set js. state j = FG \<longrightarrow> pid j = p" by (simp_all add: fg_inv_def)
  have w: "fg_inv (InWaitfg p) (js[i := x])"
  proof -
    from x(2) show ?thesis
    proof
      assume "x = clearjob (js ! i)"
      then show ?thesis using fg_inv_delete[OF inv, of p] d(1) by simp
    next
      assume "x = (js ! i)\<lparr>state := v\<rparr>"
      then show ?thesis using fg_inv_restate[OF inv d(2), of v] x(1) by simp
    qed
  qed
  have "state j \<noteq> FG" if "j \<in> set (js[i := x])" for j
  proof
    assume f: "state j = FG"
    from that obtain b where b: "b < length js" "j = js[i := x] ! b"
      by (auto simp: in_set_conv_nth)
    show False
    proof (cases "b = i")
      case True
      with b d(2) have "j = x" by simp
      with f x(1) show False by simp
    next
      case False
      with b have j: "j = js ! b" by simp
      with f fgs b(1) have "pid (js ! b) = p" by (metis nth_mem)
      with d(3) have "pid (js ! b) = pid (js ! i)" "pid (js ! b) \<noteq> 0" using p by simp_all
      from live_pid_unique[OF dp b(1) d(2) this] False show False by simp
    qed
  qed
  with w show ?thesis by (simp add: fg_inv_def)
qed

lemma fg_inv_waitfg_loop:
  assumes inv: "fg_inv (InWaitfg p) (jobs st)"
  shows "(waitfg_loop p sy ws st = Return u st' \<longrightarrow> fg_inv AtPrompt (jobs st'))
       \<and> (waitfg_loop p sy ws st = Blocked q st' \<longrightarrow> q = p \<and> st' = st)"
proof (induction ws)
  case Nil
  then show ?case by simp
next
  case (Cons e ws)
  obtain wpid status where e: "e = (wpid, status)" by (cases e)
  show ?case
  proof (cases "wpid < 0")
    case True
    with e show ?thesis by (simp add: unix_error_def)
  next
    case nonneg: False
    show ?thesis
    proof (cases "getjobpid (jobs st) p")
      case None
      from inv have p: "1 \<le> p" and fgs: "\<forall>j\<in>set (jobs st). state j = FG \<longrightarrow> pid j = p"
        by (simp_all add: fg_inv_def)
      from None p have "\<forall>j\<in>set (jobs st). pid j \<noteq> p"
        by (simp add: getjobpid_def first_index_None)
      with fgs have "\<forall>j\<in>set (jobs st). state j \<noteq> FG" by blast
      with inv have "fg_inv AtPrompt (jobs st)" by (simp add: fg_inv_def)
      with None nonneg e show ?thesis by (auto simp: printf_def)
    next
      case (Some i)
      note d = deletejob_clears[OF Some]
      have del: "fg_inv AtPrompt (jobs (delete_in p st))"
        using fg_inv_leave[OF inv Some, of "clearjob (jobs st ! i)" 0] d(1)
        by (simp add: delete_in_def clearjob_def UNDEF_def FG_def)
      show ?thesis
      proof (cases status)
        case (Exited x1)
        with Some nonneg e del show ?thesis by auto
      next
        case (Signaled x2)
        with Some nonneg e del show ?thesis by (auto simp: printf_def delete_in_def)
      next
        case (Stopped x3)
        have "fg_inv AtPrompt (jobs (set_state i ST st))"
          using fg_inv_leave[OF inv Some, of "(jobs st ! i)\<lparr>state := ST\<rparr>" ST]
          by (simp add: set_state_def ST_def FG_def)
        with Stopped Some nonneg e show ?thesis by (auto simp: printf_def Let_def)
      next
        case Continued
        with Some nonneg e Cons.IH show ?thesis by simp
      qed
    qed
  qed
qed


lemma fg_inv_foreground:
  assumes inv: "fg_inv AtPrompt js" and i: "i < length js" and p: "1 \<le> pid (js ! i)"
  shows "fg_inv (InWaitfg (pid (js ! i))) (js[i := (js ! i)\<lparr>state := FG\<rparr>])"
proof -
  let ?x = "(js ! i)\<lparr>state := FG\<rparr>"
  let ?js = "js[i := ?x]"
  have w: "fg_inv AtPrompt (js[i := (js ! i)\<lparr>state := BG\<rparr>])"
    using fg_inv_restate[OF inv i, of BG] by (simp add: BG_def FG_def)
  have lj: "live_jids ?js = live_jids (js[i := (js ! i)\<lparr>state := BG\<rparr>])"
    unfolding live_jids_def using i
    by (simp add: map_filter_update_same[of i js "\<lambda>j. pid j \<noteq> 0" _ jid])
  have lp: "live_pids ?js = live_pids (js[i := (js ! i)\<lparr>state := BG\<rparr>])"
    unfolding live_pids_def using i
    by (simp add: map_filter_update_same[of i js "\<lambda>j. pid j \<noteq> 0" _ pid])
  have mem: "j = ?x \<or> (j \<in> set js \<and> j \<in> set (js[i := (js ! i)\<lparr>state := BG\<rparr>]) \<or> j \<in> set js)"
    if "j \<in> set ?js" for j using set_update_subset[OF that] by blast
  have props: "(pid j = 0 \<longrightarrow> jid j = 0) \<and> (pid j \<noteq> 0 \<longrightarrow> 1 \<le> jid j \<and> jid j \<le> int MAXJOBS)
               \<and> 0 \<le> pid j \<and> (state j = FG \<longrightarrow> pid j = pid (js ! i))"
    if "j \<in> set ?js" for j
  proof -
    from set_update_subset[OF that] show ?thesis
    proof
      assume "j = ?x"
      moreover from inv nth_mem[OF i]
      have "(pid (js ! i) = 0 \<longrightarrow> jid (js ! i) = 0)
            \<and> (pid (js ! i) \<noteq> 0 \<longrightarrow> 1 \<le> jid (js ! i) \<and> jid (js ! i) \<le> int MAXJOBS)
            \<and> 0 \<le> pid (js ! i)"
        by (simp add: fg_inv_def table_inv_def)
      ultimately show ?thesis by simp
    next
      assume "j \<in> set js"
      with inv show ?thesis by (simp add: fg_inv_def table_inv_def)
    qed
  qed
  from w have "length js = MAXJOBS" "distinct (live_jids ?js)" "distinct (live_pids ?js)"
    by (simp_all add: fg_inv_def table_inv_def lj lp)
  with props p show ?thesis by (simp add: fg_inv_def table_inv_def)
qed

lemma resolve_job:
  assumes r: "do_bgfg_resolve argv js = Job i p" and inv: "fg_inv c js"
  shows "i < length js \<and> p = pid (js ! i) \<and> 1 \<le> p"
proof -
  from r have "(\<exists>j. 0 < j \<and> getjobjid js j = Some i \<and> p = pid (js ! i)) \<or> (0 < p \<and> getjobpid js p = Some i)"
    by (auto simp: do_bgfg_resolve_def Let_def split: list.splits if_splits option.splits)
  then show ?thesis
  proof
    assume "\<exists>j. 0 < j \<and> getjobjid js j = Some i \<and> p = pid (js ! i)"
    then obtain j where j: "0 < j" "getjobjid js j = Some i" "p = pid (js ! i)" by blast
    then have "first_index (\<lambda>k. jid k = j) js = Some i" by (simp add: getjobjid_def split: if_splits)
    from first_index_Some[OF this] have i: "i < length js" "jid (js ! i) = j" by auto
    from inv nth_mem[OF i(1)]
    have "(pid (js ! i) = 0 \<longrightarrow> jid (js ! i) = 0) \<and> 0 \<le> pid (js ! i)"
      by (simp add: fg_inv_def table_inv_def)
    with i j show ?thesis by auto
  next
    assume a: "0 < p \<and> getjobpid js p = Some i"
    with deletejob_clears[of js p i] show ?thesis by auto
  qed
qed

lemma fg_inv_do_bgfg:
  assumes inv: "fg_inv AtPrompt (jobs st)"
  shows "(do_bgfg argv sy st = Return u st' \<longrightarrow> fg_inv AtPrompt (jobs st'))
       \<and> (do_bgfg argv sy st = Blocked q st' \<longrightarrow> fg_inv (InWaitfg q) (jobs st'))"
proof (cases "do_bgfg_resolve argv (jobs st)")
  case (Rejected m)
  then show ?thesis using inv by (auto simp: do_bgfg_def printf_def)
next
  case Unspecified
  then show ?thesis by (simp add: do_bgfg_def)
next
  case (Job i p)
  from resolve_job[OF Job inv] have i: "i < length (jobs st)" and p: "p = pid (jobs st ! i)" "1 \<le> p"
    by auto
  show ?thesis
  proof (cases "kill_ret sy < 0")
    case True
    with Job show ?thesis by (simp add: do_bgfg_def do_bgfg_signal_def unix_error_def Let_def)
  next
    case False
    let ?st1 = "kill (- p) SIGCONT st"
    have j1: "jobs ?st1 = jobs st" by (simp add: kill_def)
    have run: "do_bgfg argv sy st = do_bgfg_retag argv i sy ?st1"
      using Job False by (simp add: do_bgfg_def do_bgfg_signal_def Let_def)
    show ?thesis
    proof (cases "hd argv = ''bg''")
      case True
      have "fg_inv AtPrompt (jobs (set_state i BG ?st1))"
        using fg_inv_restate[OF inv i, of BG] by (simp add: set_state_def j1 BG_def FG_def)
      with True show ?thesis unfolding run by (auto simp: do_bgfg_retag_def Let_def printf_def)
    next
      case nbg: False
      show ?thesis
      proof (cases "hd argv = ''fg''")
        case True
        let ?st2 = "set_state i FG ?st1"
        have j2: "jobs (set_state i FG (kill t SIGCONT st))
                    = (jobs st)[i := (jobs st ! i)\<lparr>state := FG\<rparr>]" for t
          by (simp add: set_state_def kill_def)
        have "pid (jobs ?st2 ! i) = pid (jobs st ! i)" using i by (simp add: j2)
        then have pp: "pid (jobs ?st2 ! i) = p" unfolding p(1) .
        have pge: "1 \<le> pid (jobs st ! i)" using p by simp
        have w: "fg_inv (InWaitfg p) (jobs ?st2)"
          unfolding j2 unfolding p(1) by (rule fg_inv_foreground[OF inv i pge])
        have "do_bgfg argv sy st = waitfg_loop p sy (waitpid_rets sy) ?st2"
          unfolding run using True nbg pp p(2) by (simp add: do_bgfg_retag_def Let_def waitfg_def)
        with fg_inv_waitfg_loop[OF w, of sy "waitpid_rets sy" u st' q] w show ?thesis by auto
      next
        case False
        with nbg inv show ?thesis unfolding run by (auto simp: do_bgfg_retag_def j1)
      qed
    qed
  qed
qed

lemma listjobs_from_jobs: "jobs (listjobs_from n js st) = jobs st"
  by (induction n js st rule: listjobs_from.induct) (simp_all add: printf_def)

lemma fg_inv_builtin_cmd:
  assumes inv: "fg_inv AtPrompt (jobs st)"
  shows "(builtin_cmd argv sy st = Return b st' \<longrightarrow> fg_inv AtPrompt (jobs st') \<and> (b = 0 \<longrightarrow> st' = st))
       \<and> (builtin_cmd argv sy st = Blocked q st' \<longrightarrow> fg_inv (InWaitfg q) (jobs st'))"
proof (cases "hd argv = ''bg'' \<or> hd argv = ''fg''")
  case True
  then have b: "builtin_cmd argv sy st = bind (do_bgfg argv sy st) (\<lambda>_. Return 1)"
    by (auto simp: builtin_cmd_def)
  show ?thesis
  proof (cases "do_bgfg argv sy st")
    case (Return u s1)
    with fg_inv_do_bgfg[OF inv, of argv sy u s1] b show ?thesis by auto
  next
    case (Blocked q' s1)
    with fg_inv_do_bgfg[OF inv, of argv sy _ s1 q'] b show ?thesis by auto
  qed (use b in auto)
next
  case False
  then show ?thesis using inv by (auto simp: builtin_cmd_def listjobs_def listjobs_from_jobs)
qed


lemma fg_inv_addjob_bg:
  assumes inv: "fg_inv AtPrompt (jobs st)" and fresh: "p < 1 \<or> getjobpid (jobs st) p = None"
    and a: "addjob p BG c st = Some (r, st')"
  shows "fg_inv AtPrompt (jobs st')"
proof -
  from addjob_cases[OF a] show ?thesis
  proof
    assume "r = 0 \<and> jobs st' = jobs st"
    with inv show ?thesis by simp
  next
    assume "r = 1 \<and> 1 \<le> p \<and> length c < MAXLINE \<and>
      (\<exists>i f. first_index (\<lambda>j. pid j = 0) (jobs st) = Some i \<and> freejid (jobs st) = Some f \<and> f \<noteq> 0 \<and>
         jobs st' = (jobs st)[i := \<lparr>pid = p, jid = f, state = BG, cmdline = c\<rparr>])"
    then obtain i f where h: "1 \<le> p" "first_index (\<lambda>j. pid j = 0) (jobs st) = Some i"
      "freejid (jobs st) = Some f" "f \<noteq> 0"
      "jobs st' = (jobs st)[i := \<lparr>pid = p, jid = f, state = BG, cmdline = c\<rparr>]" by blast
    let ?new = "\<lparr>pid = p, jid = f, state = BG, cmdline = c\<rparr>"
    from inv have ti: "table_inv (jobs st)" and dp: "distinct (live_pids (jobs st))"
      and nn: "\<forall>j\<in>set (jobs st). 0 \<le> pid j" and nofg: "\<forall>j\<in>set (jobs st). state j \<noteq> FG"
      by (simp_all add: fg_inv_def)
    from fresh h(1) have g: "getjobpid (jobs st) p = None" by auto
    have 1: "table_inv (jobs st')" unfolding h(5) by (rule table_inv_register(1)[OF ti h(2,3,4,1)])
    have 2: "distinct (live_pids (jobs st'))" unfolding h(5) by (rule live_pids_register[OF dp h(2) g h(1)])
    have 3: "0 \<le> pid j \<and> state j \<noteq> FG" if "j \<in> set (jobs st')" for j
    proof -
      from that have "j = ?new \<or> j \<in> set (jobs st)" unfolding h(5) by (rule set_update_subset)
      then show ?thesis using nn nofg h(1) by (auto simp: BG_def FG_def)
    qed
    from 1 2 3 show ?thesis by (simp add: fg_inv_def)
  qed
qed

lemma fg_inv_eval:
  assumes inv: "fg_inv AtPrompt (jobs st)"
    and fresh: "fork_ret sy < 1 \<or> getjobpid (jobs st) (fork_ret sy) = None"
  shows "(eval cmdl sy st = Return u st' \<longrightarrow> fg_inv AtPrompt (jobs st'))
       \<and> (eval cmdl sy st = Blocked q st' \<longrightarrow> fg_inv (InWaitfg q) (jobs st'))"
proof (cases "parseline cmdl")
  case None
  then show ?thesis by (simp add: eval_def)
next
  case (Some a)
  obtain bg argv where a: "a = (bg, argv)" by (cases a)
  show ?thesis
  proof (cases "argv = []")
    case True
    with Some a inv show ?thesis by (auto simp: eval_def)
  next
    case ne: False
    from parseline_flag[of cmdl bg argv] Some a ne have bg: "bg \<noteq> 0" by simp
    let ?k = "\<lambda>b st.
            if b = 0 then
              (let mask = {SIGCHLD, SIGINT, SIGTSTP};
                   st1 = snd (sigprocmask (SIG_BLOCK mask) st);
                   p = fork_ret sy
               in if p = 0 then Child st1
                  else
                    bind (case addjob p (if bg \<noteq> 0 then BG else FG) cmdl st1 of
                            None \<Rightarrow> Undefined
                          | Some (r, st2) \<Rightarrow> Return r st2) (\<lambda>_ st2.
                    bind (if bg = 0 then waitfg p sy st2
                          else Return () (printf (''['' @ fmt_d (pid2jid (jobs st2) p) @ ''] (''
                                                  @ fmt_d p @ '') '' @ cmdl) st2)) (\<lambda>_ st3.
                    Return () (snd (sigprocmask (SIG_UNBLOCK mask) st3)))))
            else Return () st"
    have ev: "eval cmdl sy st = bind (builtin_cmd argv sy st) ?k"
      using Some a ne by (simp add: eval_def)
    show ?thesis
    proof (cases "builtin_cmd argv sy st")
      case (Return b s1)
      note bi = fg_inv_builtin_cmd[OF inv, of argv sy b s1]
      show ?thesis
      proof (cases "b = 0")
        case False
        with Return bi show ?thesis unfolding ev by auto
      next
        case True
        with Return bi have s1: "s1 = st" by simp
        let ?st1 = "snd (sigprocmask (SIG_BLOCK {SIGCHLD, SIGINT, SIGTSTP}) st)"
        have j1: "jobs ?st1 = jobs st" by simp
        show ?thesis
        proof (cases "fork_ret sy = 0")
          case z: True
          with True Return s1 show ?thesis unfolding ev by (simp add: Let_def)
        next
          case nz: False
          show ?thesis
          proof (cases "addjob (fork_ret sy) BG cmdl ?st1")
            case None
            with True Return s1 nz bg show ?thesis unfolding ev by (simp add: Let_def)
          next
            case (Some rs)
            obtain r st2 where rs: "rs = (r, st2)" by (cases rs)
            have "fg_inv AtPrompt (jobs st2)"
              using fg_inv_addjob_bg[of ?st1 "fork_ret sy" cmdl r st2] inv fresh Some rs
              by (simp add: j1)
            moreover have "eval cmdl sy st = Return ()
                (snd (sigprocmask (SIG_UNBLOCK {SIGCHLD, SIGINT, SIGTSTP})
                   (printf (''['' @ fmt_d (pid2jid (jobs st2) (fork_ret sy)) @ ''] (''
                             @ fmt_d (fork_ret sy) @ '') '' @ cmdl) st2)))"
              using True Return s1 nz bg Some rs unfolding ev by (simp add: Let_def)
            ultimately show ?thesis by (auto simp: printf_def)
          qed
        qed
      qed
    next
      case (Blocked q' s1)
      with fg_inv_builtin_cmd[OF inv, of argv sy _ s1 q'] show ?thesis unfolding ev by auto
    qed (simp_all add: ev)
  qed
qed

lemma fg_inv_step:
  assumes "fg_inv c (jobs st)" and "step e (c, st) = Some (c', st')"
  shows "fg_inv c' (jobs st')"
proof (cases e)
  case (Command cmdl sy)
  show ?thesis
  proof (cases c)
    case AtPrompt
    with Command assms(2)
    have fresh: "fork_ret sy < 1 \<or> getjobpid (jobs st) (fork_ret sy) = None"
      by (auto split: if_splits)
    from assms(1) AtPrompt have inv: "fg_inv AtPrompt (jobs st)" by simp
    show ?thesis
    proof (cases "eval cmdl sy st")
      case (Return u s1)
      with fg_inv_eval[OF inv fresh, of cmdl u s1] Command AtPrompt assms(2) show ?thesis
        by (auto split: if_splits)
    next
      case (Blocked q s1)
      with fg_inv_eval[OF inv fresh, of cmdl _ s1 q] Command AtPrompt assms(2) show ?thesis
        by (auto split: if_splits)
    qed (use Command AtPrompt assms(2) in \<open>auto split: if_splits\<close>)
  next
    case (InWaitfg p)
    with Command assms(2) show ?thesis by simp
  qed
next
  case (Sigchld ws)
  with assms show ?thesis by (auto simp: fg_inv_sigchld_handler)
next
  case Sigint
  with assms show ?thesis by (auto simp: fg_inv_sigint)
next
  case Sigtstp
  with assms show ?thesis by (auto simp: fg_inv_sigtstp)
next
  case (Wakeup sy)
  show ?thesis
  proof (cases c)
    case AtPrompt
    with Wakeup assms(2) show ?thesis by simp
  next
    case (InWaitfg p)
    with assms(1) have inv: "fg_inv (InWaitfg p) (jobs st)" by simp
    show ?thesis
    proof (cases "waitfg_loop p sy (waitpid_rets sy) st")
      case (Return u s1)
      with fg_inv_waitfg_loop[OF inv, of sy "waitpid_rets sy" u s1] Wakeup InWaitfg assms(2)
      show ?thesis by auto
    next
      case (Blocked q s1)
      with fg_inv_waitfg_loop[OF inv, of sy "waitpid_rets sy" _ s1 q] Wakeup InWaitfg assms(2) inv
      show ?thesis by auto
    qed (use Wakeup InWaitfg assms(2) in auto)
  qed
qed

lemma fg_inv_run:
  "fg_inv c (jobs st) \<Longrightarrow> run es (c, st) = Some (c', st') \<Longrightarrow> fg_inv c' (jobs st')"
proof (induction es arbitrary: c st)
  case Nil
  then show ?case by simp
next
  case (Cons e es)
  from Cons.prems(2) obtain c1 s1 where s: "step e (c, st) = Some (c1, s1)"
    "run es (c1, s1) = Some (c', st')" by (auto split: option.splits)
  from Cons.IH[OF fg_inv_step[OF Cons.prems(1) s(1)] s(2)] show ?case .
qed

lemma one_holder:
  "distinct (live_pids js) \<Longrightarrow> \<forall>j\<in>set js. P j \<longrightarrow> pid j = p \<Longrightarrow> p \<noteq> 0
   \<Longrightarrow> length (filter P js) \<le> 1"
proof (induction js)
  case Nil
  then show ?case by simp
next
  case (Cons x xs)
  from Cons.prems(1) have d: "distinct (live_pids xs)" by (simp add: live_pids_def split: if_splits)
  show ?case
  proof (cases "P x")
    case True
    with Cons.prems have px: "pid x = p" "pid x \<noteq> 0" by auto
    with Cons.prems(1) have "p \<notin> set (live_pids xs)" by (simp add: live_pids_def)
    have "\<not> P j" if "j \<in> set xs" for j
    proof
      assume "P j"
      with Cons.prems(2) that have "pid j = p" by simp
      with that Cons.prems(3) have "p \<in> set (live_pids xs)" by (auto simp: live_pids_def)
      with \<open>p \<notin> set (live_pids xs)\<close> show False by simp
    qed
    then have "\<forall>j\<in>set xs. \<not> P j" by blast
    then have "filter P xs = []" by (simp add: filter_empty_conv)
    with True show ?thesis by simp
  next
    case False
    with Cons.IH[OF d] Cons.prems show ?thesis by simp
  qed
qed

lemma fg_inv_count: "fg_inv c js \<Longrightarrow> length (filter (\<lambda>j. state j = FG) js) \<le> 1"
proof (cases c)
  case AtPrompt
  assume "fg_inv c js"
  with AtPrompt have "filter (\<lambda>j. state j = FG) js = []"
    by (simp add: fg_inv_def filter_empty_conv)
  then show ?thesis by simp
next
  case (InWaitfg p)
  assume "fg_inv c js"
  with InWaitfg show ?thesis by (intro one_holder[of js _ p]) (auto simp: fg_inv_def)
qed

text \<open>
  With every command and every handler run to completion before the next starts (a
  handler may run while \<open>waitfg\<close> is blocked, none inside \<open>do_bgfg\<close>), and \<open>fork\<close>
  returning no pid that a slot still holds, at most one slot is ever in state \<open>FG\<close>.
\<close>

lemma uninterrupted_runs_one_foreground:
  assumes "length arr = MAXJOBS" and "jobs st0 = initjobs arr"
    and "run es (AtPrompt, st0) = Some (c, st)"
  shows "length (filter (\<lambda>j. state j = FG) (jobs st)) \<le> 1"
proof -
  have "fg_inv AtPrompt (jobs st0)"
    using assms(1,2) table_inv_init[OF assms(1)]
    by (simp add: fg_inv_def live_pids_def initjobs_def clearjob_def filter_empty_conv
        UNDEF_def FG_def)
  from fg_inv_count[OF fg_inv_run[OF this assms(3)]] show ?thesis .
qed

text \<open>
  Claim C2 holds of the runs above, whose steps are not interrupted, and fails when a
  \<open>SIGCHLD\<close> is handled inside \<open>do_bgfg\<close>. Two jobs are started
  (\<open>eval\<close> registers both in state \<open>BG\<close>: its flag \<open>bg\<close> is the \<open>argc\<close> that \<open>parseline\<close>
  returns). During \<open>fg %1\<close> the child 5 exits after \<open>kill(-5, SIGCONT)\<close> has returned and
  \<open>sigchld_handler\<close> clears slot 0 before \<open>job->state = FG\<close> is stored through the pointer
  to that slot; \<open>waitfg(job->pid)\<close> is \<open>waitfg(0)\<close> and returns at once. \<open>fg %2\<close> then
  puts slot 1 in state \<open>FG\<close> and waits: two slots are in state \<open>FG\<close>, and \<open>fgpid\<close>
  returns the pid 0 of the first, so that \<open>sigint_handler\<close> sends nothing to job 2.
\<close>

theorem stale_foreground_slot:
  "parseline ''fg %1\<newline>'' = Some (2, [''fg'', ''%1''])
   \<and> (case eval ''sleep 100\<newline>'' \<lparr>fork_ret = 5, kill_ret = 0, waitpid_rets = [], strerror_errno = []\<rparr> boot of
        Return _ s1 \<Rightarrow>
         (case eval ''sleep 200\<newline>'' \<lparr>fork_ret = 6, kill_ret = 0, waitpid_rets = [], strerror_errno = []\<rparr> s1 of
           Return _ s2 \<Rightarrow>
             map pid (take 3 (jobs s2)) = [5, 6, 0] \<and> map state (take 3 (jobs s2)) = [BG, BG, UNDEF]
             \<and> (case do_bgfg_interleaved [''fg'', ''%1'']
                      \<lparr>fork_ret = 0, kill_ret = 0, waitpid_rets = [], strerror_errno = []\<rparr>
                      (sigchld_handler [(5, Exited 0)]) s2 of
                  Return _ s3 \<Rightarrow>
                    map pid (take 3 (jobs s3)) = [0, 6, 0] \<and> map state (take 3 (jobs s3)) = [FG, BG, UNDEF]
                    \<and> (case do_bgfg [''fg'', ''%2'']
                             \<lparr>fork_ret = 0, kill_ret = 0, waitpid_rets = [], strerror_errno = []\<rparr> s3 of
                         Blocked p s4 \<Rightarrow>
                           p = 6 \<and> map pid (take 3 (jobs s4)) = [0, 6, 0]
                           \<and> map state (take 3 (jobs s4)) = [FG, FG, UNDEF]
                           \<and> length (filter (\<lambda>j. state j = FG) (jobs s4)) = 2
                           \<and> fgpid (jobs s4) = 0
                           \<and> kills (sigint_handler s4) = kills s4
                       | _ \<Rightarrow> False)
                | _ \<Rightarrow> False)
         | _ \<Rightarrow> False)
      | _ \<Rightarrow> False)"
  by code_simp

end
